theory Spec2Isabelle
  imports Main "HOL-Library.Multiset"
begin

section \<open>Data model of \<open>src/verify.ts\<close>\<close>

text \<open>
  The verification engine of the skills CLI: \<open>checkSymlinkIntegrity\<close> and
  \<open>verifySkills\<close>. Strings of the source are \<^typ>\<open>string\<close>; an optional field
  (\<open>expectedHash?\<close>) is an \<^typ>\<open>'a option\<close> with \<open>None\<close> for \<open>undefined\<close>; the numbers
  of \<open>counts\<close> are natural numbers (they only count pushes onto \<open>results\<close>).
\<close>

type_synonym AgentType = string

datatype VerifyStatus = Ok | Modified | Missing | Untracked | Invalid

datatype Scope = Project | Global

text \<open>A thrown \<open>Error\<close> and its message.\<close>

datatype Error = Error (message: string)

record BrokenSymlink =
  agent :: AgentType
  link :: string

text \<open>
  \<open>InstalledSkill\<close> of \<open>installer.ts\<close>: the fields \<open>verifySkills\<close> reads. Its selectors are
  written qualified (\<open>InstalledSkill.name\<close>), since \<open>VerifyResult\<close> has fields of the same
  names.
\<close>

record InstalledSkill =
  name :: string
  canonicalPath :: string
  agents :: "AgentType list"

text \<open>
  An entry of the lock file. In project scope the source reads it as
  \<open>{ computedHash: string }\<close>; an entry without that property gives \<open>undefined\<close>, here
  \<open>None\<close>.
\<close>

record LockEntry =
  source :: string
  sourceType :: string
  computedHash :: "string option"

text \<open>
  \<open>lockFile.skills\<close> is an object; \<open>skills\<close> is the list \<open>Object.entries\<close> gives for it, in
  its order. The keys of an object are pairwise different.
\<close>

record LockFile =
  version :: nat
  skills :: "(string \<times> LockEntry) list"

record Counts =
  ok :: nat
  modified :: nat
  missing :: nat
  untracked :: nat
  invalid :: nat
  brokenSymlinksCount :: nat

record VerifyResult =
  name :: string
  path :: string
  status :: VerifyStatus
  expectedHash :: "string option"
  actualHash :: "string option"
  agents :: "AgentType list"
  brokenSymlinks :: "BrokenSymlink list"
  error :: "string option"

record VerifySummary =
  scope :: Scope
  results :: "VerifyResult list"
  counts :: Counts

text \<open>
  The options objects: \<open>{ global?, cwd? }\<close> of \<open>checkSymlinkIntegrity\<close>, extended by
  \<open>agentFilter?\<close> for \<open>verifySkills\<close> and \<open>listInstalledSkills\<close>.
\<close>

record DirOptions =
  global :: "bool option"
  cwd :: "string option"

record SkillsOptions = DirOptions +
  agentFilter :: "AgentType list option"

text \<open>What \<open>lstat\<close> returns: the two tests of \<open>fs.Stats\<close> the source and its comments use.\<close>

record Stats =
  isSymbolicLink :: bool
  isDirectory :: bool

text \<open>
  The collaborators of \<open>verify.ts\<close> that are imported from modules outside it (Node's
  \<open>fs/promises\<close> and \<open>path\<close>, \<open>process.cwd\<close>, \<open>String.prototype.localeCompare\<close>, and
  \<open>agents.ts\<close>, \<open>installer.ts\<close>, \<open>local-lock.ts\<close>, \<open>skill-lock.ts\<close>, \<open>skills.ts\<close>) are the
  fields of an environment. A call that may throw inside a \<open>try\<close> block returns a sum with
  the error on the left. \<open>parseSkillMd\<close> returns a skill or \<open>null\<close>, and the source only
  tests the result for truth: the field is that test. The runs modelled are those in which
  the lock readers, \<open>listInstalledSkills\<close>, \<open>detectInstalledAgents\<close> and \<open>parseSkillMd\<close>
  return.
\<close>

record Env =
  processCwd :: string
  join :: "string \<Rightarrow> string \<Rightarrow> string"
  dirname :: "string \<Rightarrow> string"
  resolve :: "string \<Rightarrow> string \<Rightarrow> string"
  lstat :: "string \<Rightarrow> Error + Stats"
  readlink :: "string \<Rightarrow> Error + string"
  localeCompare :: "string \<Rightarrow> string \<Rightarrow> int"
  getAgentBaseDir :: "AgentType \<Rightarrow> bool \<Rightarrow> string \<Rightarrow> string"
  getCanonicalSkillsDir :: "bool \<Rightarrow> string \<Rightarrow> string"
  listInstalledSkills :: "SkillsOptions \<Rightarrow> InstalledSkill list"
  detectInstalledAgents :: "AgentType list"
  readLocalLock :: "string \<Rightarrow> LockFile"
  readSkillLock :: LockFile
  parseSkillMd :: "string \<Rightarrow> bool"
  computeSkillFolderHash :: "string \<Rightarrow> Error + string"

section \<open>JavaScript values the source relies on\<close>

text \<open>\<open>options.cwd || process.cwd()\<close>: \<open>undefined\<close> and the empty string are falsy.\<close>

definition cwdOrProcess :: "Env \<Rightarrow> string option \<Rightarrow> string" where
  "cwdOrProcess env c = (case c of None \<Rightarrow> processCwd env
                                  | Some s \<Rightarrow> if s = [] then processCwd env else s)"

text \<open>\<open>options.global ?? false\<close>.\<close>

definition globalOrFalse :: "bool option \<Rightarrow> bool" where
  "globalOrFalse g = (case g of None \<Rightarrow> False | Some b \<Rightarrow> b)"

text \<open>Truth of an optional string: \<open>undefined\<close> and \<open>""\<close> are falsy.\<close>

definition truthy :: "string option \<Rightarrow> bool" where
  "truthy h = (case h of None \<Rightarrow> False | Some s \<Rightarrow> s \<noteq> [])"

text \<open>
  A \<open>Map<string, V>\<close> as the list of its entries in insertion order, the order in which
  the source iterates it. \<open>set\<close> on a key already present replaces the value in place.
\<close>

fun Map_set :: "string \<Rightarrow> 'v \<Rightarrow> (string \<times> 'v) list \<Rightarrow> (string \<times> 'v) list" where
  "Map_set k v [] = [(k, v)]"
| "Map_set k v ((k', v') # m) =
     (if k' = k then (k, v) # m else (k', v') # Map_set k v m)"

fun Map_get :: "(string \<times> 'v) list \<Rightarrow> string \<Rightarrow> 'v option" where
  "Map_get [] k = None"
| "Map_get ((k', v') # m) k = (if k' = k then Some v' else Map_get m k)"

fun Map_delete :: "string \<Rightarrow> (string \<times> 'v) list \<Rightarrow> (string \<times> 'v) list" where
  "Map_delete k [] = []"
| "Map_delete k ((k', v') # m) =
     (if k' = k then Map_delete k m else (k', v') # Map_delete k m)"

text \<open>
  \<open>Array.prototype.sort\<close> with a comparison function. ECMAScript requires the sort to be
  stable; for a comparison that is a total preorder its result is the stable sorted
  rearrangement, which insertion from the right computes.
\<close>

fun insertSorted :: "('a \<Rightarrow> 'a \<Rightarrow> int) \<Rightarrow> 'a \<Rightarrow> 'a list \<Rightarrow> 'a list" where
  "insertSorted cmp x [] = [x]"
| "insertSorted cmp x (y # ys) =
     (if cmp x y \<le> 0 then x # y # ys else y # insertSorted cmp x ys)"

fun Array_sort :: "('a \<Rightarrow> 'a \<Rightarrow> int) \<Rightarrow> 'a list \<Rightarrow> 'a list" where
  "Array_sort cmp [] = []"
| "Array_sort cmp (x # xs) = insertSorted cmp x (Array_sort cmp xs)"

section \<open>\<open>checkSymlinkIntegrity\<close>\<close>

text \<open>
  The body of the \<open>for\<close> loop for one agent; \<open>canonPath\<close> is the parameter
  \<open>canonicalPath\<close> and \<open>found\<close> the array \<open>brokenSymlinks\<close> so far. The \<open>try\<close> block
  covers \<open>lstat\<close> and \<open>readlink\<close>; its \<open>catch\<close> is empty.
\<close>

definition checkAgent ::
  "Env \<Rightarrow> string \<Rightarrow> string \<Rightarrow> bool \<Rightarrow> string \<Rightarrow> BrokenSymlink list \<Rightarrow> AgentType
     \<Rightarrow> BrokenSymlink list" where
  "checkAgent env skillName canonPath g c found agentType =
     (let agentDir = getAgentBaseDir env agentType g c;
          skillLink = join env agentDir skillName
      in if agentDir = getCanonicalSkillsDir env g c then found
         else (case lstat env skillLink of
                 Inl e \<Rightarrow> found
               | Inr stats \<Rightarrow>
                   if isSymbolicLink stats then
                     (case readlink env skillLink of
                        Inl e \<Rightarrow> found
                      | Inr target \<Rightarrow>
                          let resolvedTarget = resolve env (dirname env skillLink) target
                          in if resolvedTarget \<noteq> canonPath
                             then found @ [\<lparr>agent = agentType, link = skillLink\<rparr>]
                             else found)
                   else found))"

fun checkAgents ::
  "Env \<Rightarrow> string \<Rightarrow> string \<Rightarrow> bool \<Rightarrow> string \<Rightarrow> AgentType list \<Rightarrow> BrokenSymlink list
     \<Rightarrow> BrokenSymlink list" where
  "checkAgents env skillName canonPath g c [] found = found"
| "checkAgents env skillName canonPath g c (agentType # rest) found =
     checkAgents env skillName canonPath g c rest
       (checkAgent env skillName canonPath g c found agentType)"

definition checkSymlinkIntegrity ::
  "Env \<Rightarrow> string \<Rightarrow> string \<Rightarrow> AgentType list \<Rightarrow> DirOptions \<Rightarrow> BrokenSymlink list" where
  "checkSymlinkIntegrity env skillName canonPath agentsToCheck options =
     checkAgents env skillName canonPath (globalOrFalse (global options))
       (cwdOrProcess env (cwd options)) agentsToCheck []"

section \<open>\<open>verifySkills\<close>\<close>

text \<open>The local variables the two loops of \<open>verifySkills\<close> update.\<close>

record VerifyState =
  resultsV :: "VerifyResult list"
  countsV :: Counts
  installedMap :: "(string \<times> InstalledSkill) list"

definition zeroCounts :: Counts where
  "zeroCounts = \<lparr>ok = 0, modified = 0, missing = 0, untracked = 0, invalid = 0,
                 brokenSymlinksCount = 0\<rparr>"

text \<open>\<open>for (const skill of installedSkills) installedMap.set(skill.name, skill)\<close>.\<close>

fun buildInstalledMap ::
  "InstalledSkill list \<Rightarrow> (string \<times> InstalledSkill) list \<Rightarrow> (string \<times> InstalledSkill) list" where
  "buildInstalledMap [] m = m"
| "buildInstalledMap (skill # rest) m =
     buildInstalledMap rest (Map_set (InstalledSkill.name skill) skill m)"

text \<open>
  \<open>agentFilter ? detectedAgents.filter((a) => agentFilter.includes(a)) : detectedAgents\<close>;
  an array, also the empty one, is truthy.
\<close>

definition selectAgents :: "AgentType list option \<Rightarrow> AgentType list \<Rightarrow> AgentType list" where
  "selectAgents af detectedAgents =
     (case af of None \<Rightarrow> detectedAgents
               | Some f \<Rightarrow> filter (\<lambda>a. a \<in> set f) detectedAgents)"

text \<open>
  The body of the first loop, for one entry \<open>[skillName, lockEntry]\<close> of the lock file. The
  hash branch sets \<open>status\<close>, \<open>expectedHash\<close>, \<open>actualHash\<close> (primed here, the
  plain names being fields) and the count; the \<open>catch\<close> leaves \<open>actualHash\<close> unassigned,
  and the result pushed after it has no \<open>error\<close> field.
\<close>

definition lockStep ::
  "Env \<Rightarrow> bool \<Rightarrow> string \<Rightarrow> AgentType list \<Rightarrow> VerifyState \<Rightarrow> string \<times> LockEntry
     \<Rightarrow> VerifyState" where
  "lockStep env isGlobal c agentsToCheck st entry =
     (let skillName = fst entry; lockEntry = snd entry
      in case Map_get (installedMap st) skillName of
           None \<Rightarrow>
             st\<lparr>resultsV := resultsV st @
                   [\<lparr>name = skillName, path = [], status = Missing, expectedHash = None,
                     actualHash = None, agents = [], brokenSymlinks = [],
                     error = Some ''Skill in lock file but not found on disk''\<rparr>],
                countsV := (countsV st)\<lparr>missing := missing (countsV st) + 1\<rparr>\<rparr>
         | Some installed \<Rightarrow>
             let st1 = st\<lparr>installedMap := Map_delete skillName (installedMap st)\<rparr>
             in if \<not> parseSkillMd env
                       (join env (InstalledSkill.canonicalPath installed) ''SKILL.md'')
                then
                  st1\<lparr>resultsV := resultsV st1 @
                        [\<lparr>name = skillName, path = InstalledSkill.canonicalPath installed,
                          status = Invalid, expectedHash = None, actualHash = None,
                          agents = InstalledSkill.agents installed, brokenSymlinks = [],
                          error = Some ''SKILL.md is missing or invalid''\<rparr>],
                      countsV := (countsV st1)\<lparr>invalid := invalid (countsV st1) + 1\<rparr>\<rparr>
                else
                  let (status', expectedHash', actualHash', counts1) =
                        (if \<not> isGlobal then
                           let expected = computedHash lockEntry
                           in case computeSkillFolderHash env
                                     (InstalledSkill.canonicalPath installed) of
                                Inr actual \<Rightarrow>
                                  if truthy expected \<and> Some actual \<noteq> expected
                                  then (Modified, expected, Some actual,
                                        (countsV st1)\<lparr>modified := modified (countsV st1) + 1\<rparr>)
                                  else (Ok, expected, Some actual,
                                        (countsV st1)\<lparr>ok := ok (countsV st1) + 1\<rparr>)
                              | Inl e \<Rightarrow>
                                  (Invalid, expected, None,
                                   (countsV st1)\<lparr>invalid := invalid (countsV st1) + 1\<rparr>)
                         else (Ok, None, None, (countsV st1)\<lparr>ok := ok (countsV st1) + 1\<rparr>));
                      brokenSymlinks' =
                        checkSymlinkIntegrity env skillName
                          (InstalledSkill.canonicalPath installed) agentsToCheck
                          \<lparr>global = Some isGlobal, cwd = Some c\<rparr>
                  in st1\<lparr>resultsV := resultsV st1 @
                           [\<lparr>name = skillName, path = InstalledSkill.canonicalPath installed,
                             status = status', expectedHash = expectedHash',
                             actualHash = actualHash',
                             agents = InstalledSkill.agents installed,
                             brokenSymlinks = brokenSymlinks', error = None\<rparr>],
                         countsV := counts1\<lparr>brokenSymlinksCount :=
                                      brokenSymlinksCount counts1 + length brokenSymlinks'\<rparr>\<rparr>)"

fun lockLoop ::
  "Env \<Rightarrow> bool \<Rightarrow> string \<Rightarrow> AgentType list \<Rightarrow> (string \<times> LockEntry) list \<Rightarrow> VerifyState
     \<Rightarrow> VerifyState" where
  "lockLoop env isGlobal c agentsToCheck [] st = st"
| "lockLoop env isGlobal c agentsToCheck (entry # rest) st =
     lockLoop env isGlobal c agentsToCheck rest (lockStep env isGlobal c agentsToCheck st entry)"

text \<open>
  The body of the second loop, for one entry \<open>[skillName, installed]\<close> of what is left in
  \<open>installedMap\<close>. The loop does not change the map it iterates.
\<close>

definition untrackedStep ::
  "Env \<Rightarrow> bool \<Rightarrow> string \<Rightarrow> AgentType list \<Rightarrow> VerifyState \<Rightarrow> string \<times> InstalledSkill
     \<Rightarrow> VerifyState" where
  "untrackedStep env isGlobal c agentsToCheck st entry =
     (let skillName = fst entry; installed = snd entry;
          brokenSymlinks' =
            checkSymlinkIntegrity env skillName (InstalledSkill.canonicalPath installed)
              agentsToCheck \<lparr>global = Some isGlobal, cwd = Some c\<rparr>;
          counts1 = (countsV st)\<lparr>brokenSymlinksCount :=
                       brokenSymlinksCount (countsV st) + length brokenSymlinks'\<rparr>
      in st\<lparr>resultsV := resultsV st @
               [\<lparr>name = skillName, path = InstalledSkill.canonicalPath installed,
                 status = Untracked, expectedHash = None, actualHash = None,
                 agents = InstalledSkill.agents installed, brokenSymlinks = brokenSymlinks',
                 error = Some ''Skill on disk but not in lock file''\<rparr>],
             countsV := counts1\<lparr>untracked := untracked counts1 + 1\<rparr>\<rparr>)"

fun untrackedLoop ::
  "Env \<Rightarrow> bool \<Rightarrow> string \<Rightarrow> AgentType list \<Rightarrow> (string \<times> InstalledSkill) list \<Rightarrow> VerifyState
     \<Rightarrow> VerifyState" where
  "untrackedLoop env isGlobal c agentsToCheck [] st = st"
| "untrackedLoop env isGlobal c agentsToCheck (entry # rest) st =
     untrackedLoop env isGlobal c agentsToCheck rest
       (untrackedStep env isGlobal c agentsToCheck st entry)"

text \<open>The inputs \<open>verifySkills\<close> reads before its loops, each as the source computes it.\<close>

definition lockedSkillsOf :: "Env \<Rightarrow> SkillsOptions \<Rightarrow> (string \<times> LockEntry) list" where
  "lockedSkillsOf env options =
     skills (if globalOrFalse (global options) then readSkillLock env
             else readLocalLock env (cwdOrProcess env (cwd options)))"

definition installedSkillsOf :: "Env \<Rightarrow> SkillsOptions \<Rightarrow> InstalledSkill list" where
  "installedSkillsOf env options =
     listInstalledSkills env
       \<lparr>global = Some (globalOrFalse (global options)),
        cwd = Some (cwdOrProcess env (cwd options)),
        agentFilter = agentFilter options\<rparr>"

definition installedMapOf :: "Env \<Rightarrow> SkillsOptions \<Rightarrow> (string \<times> InstalledSkill) list" where
  "installedMapOf env options = buildInstalledMap (installedSkillsOf env options) []"

definition agentsToCheckOf :: "Env \<Rightarrow> SkillsOptions \<Rightarrow> AgentType list" where
  "agentsToCheckOf env options =
     selectAgents (agentFilter options) (detectInstalledAgents env)"

definition verifySkills :: "Env \<Rightarrow> SkillsOptions \<Rightarrow> VerifySummary" where
  "verifySkills env options =
     (let c = cwdOrProcess env (cwd options);
          isGlobal = globalOrFalse (global options);
          lockedSkills = lockedSkillsOf env options;
          installedMap0 = installedMapOf env options;
          agentsToCheck = agentsToCheckOf env options;
          st1 = lockLoop env isGlobal c agentsToCheck lockedSkills
                  \<lparr>resultsV = [], countsV = zeroCounts, installedMap = installedMap0\<rparr>;
          st2 = untrackedLoop env isGlobal c agentsToCheck (installedMap st1) st1
      in \<lparr>scope = (if isGlobal then Global else Project),
          results = Array_sort (\<lambda>a b. localeCompare env (name a) (name b)) (resultsV st2),
          counts = countsV st2\<rparr>)"

section \<open>Notions used to state the properties\<close>

text \<open>The local variables of \<open>verifySkills\<close> after its two loops, before the sort.\<close>

definition loopsState :: "Env \<Rightarrow> SkillsOptions \<Rightarrow> VerifyState" where
  "loopsState env options =
     (let c = cwdOrProcess env (cwd options);
          isGlobal = globalOrFalse (global options);
          agentsToCheck = agentsToCheckOf env options;
          st1 = lockLoop env isGlobal c agentsToCheck (lockedSkillsOf env options)
                  \<lparr>resultsV = [], countsV = zeroCounts,
                   installedMap = installedMapOf env options\<rparr>
      in untrackedLoop env isGlobal c agentsToCheck (installedMap st1) st1)"

text \<open>
  The result the first loop pushes for a lock entry when the map of installed skills is
  \<open>m\<close>, and the result the second loop pushes for an entry left in the map.
\<close>

definition lockedResult ::
  "Env \<Rightarrow> bool \<Rightarrow> string \<Rightarrow> AgentType list \<Rightarrow> (string \<times> InstalledSkill) list
     \<Rightarrow> string \<times> LockEntry \<Rightarrow> VerifyResult" where
  "lockedResult env isGlobal c agentsToCheck m entry =
     last (resultsV (lockStep env isGlobal c agentsToCheck
                       \<lparr>resultsV = [], countsV = zeroCounts, installedMap = m\<rparr> entry))"

definition untrackedResult ::
  "Env \<Rightarrow> bool \<Rightarrow> string \<Rightarrow> AgentType list \<Rightarrow> string \<times> InstalledSkill \<Rightarrow> VerifyResult" where
  "untrackedResult env isGlobal c agentsToCheck entry =
     last (resultsV (untrackedStep env isGlobal c agentsToCheck
                       \<lparr>resultsV = [], countsV = zeroCounts, installedMap = []\<rparr> entry))"

text \<open>The tally of a list of results, as the spec describes \<open>counts\<close>.\<close>

definition tally :: "VerifyResult list \<Rightarrow> Counts" where
  "tally rs =
     \<lparr>ok = length (filter (\<lambda>r. status r = Ok) rs),
      modified = length (filter (\<lambda>r. status r = Modified) rs),
      missing = length (filter (\<lambda>r. status r = Missing) rs),
      untracked = length (filter (\<lambda>r. status r = Untracked) rs),
      invalid = length (filter (\<lambda>r. status r = Invalid) rs),
      brokenSymlinksCount = sum_list (map (\<lambda>r. length (brokenSymlinks r)) rs)\<rparr>"

text \<open>
  A comparison function is consistent when "not after" (\<open>cmp a b \<le> 0\<close>) is a total
  preorder, which ECMAScript asks of the argument of \<open>sort\<close> and \<open>localeCompare\<close> provides.
\<close>

definition consistentComparator :: "('a \<Rightarrow> 'a \<Rightarrow> int) \<Rightarrow> bool" where
  "consistentComparator cmp \<longleftrightarrow>
     (\<forall>a b. cmp a b \<le> 0 \<or> cmp b a \<le> 0) \<and>
     (\<forall>a b c. cmp a b \<le> 0 \<longrightarrow> cmp b c \<le> 0 \<longrightarrow> cmp a c \<le> 0)"

text \<open>
  Two runs observe the same when the library functions and the agent directories are the
  same, the lock entries, the installed skills and the detected agents read are the same,
  and the file system answers alike wherever a run asks: \<open>parseSkillMd\<close> on the
  \<open>SKILL.md\<close> of an installed skill, the fingerprint of its folder (asked in project
  scope only), and \<open>lstat\<close> and \<open>readlink\<close> on its link path under each agent checked.
\<close>

definition sameObservations :: "Env \<Rightarrow> Env \<Rightarrow> SkillsOptions \<Rightarrow> bool" where
  "sameObservations env1 env2 options \<longleftrightarrow>
     processCwd env1 = processCwd env2 \<and> join env1 = join env2 \<and>
     dirname env1 = dirname env2 \<and> resolve env1 = resolve env2 \<and>
     localeCompare env1 = localeCompare env2 \<and>
     getAgentBaseDir env1 = getAgentBaseDir env2 \<and>
     getCanonicalSkillsDir env1 = getCanonicalSkillsDir env2 \<and>
     lockedSkillsOf env1 options = lockedSkillsOf env2 options \<and>
     installedSkillsOf env1 options = installedSkillsOf env2 options \<and>
     detectInstalledAgents env1 = detectInstalledAgents env2 \<and>
     (\<forall>s \<in> set (installedSkillsOf env1 options).
        parseSkillMd env1 (join env1 (canonicalPath s) ''SKILL.md'')
          = parseSkillMd env2 (join env1 (canonicalPath s) ''SKILL.md'') \<and>
        (globalOrFalse (global options) \<or>
         computeSkillFolderHash env1 (canonicalPath s)
           = computeSkillFolderHash env2 (canonicalPath s)) \<and>
        (\<forall>a \<in> set (agentsToCheckOf env1 options).
           lstat env1 (join env1 (getAgentBaseDir env1 a (globalOrFalse (global options))
                                    (cwdOrProcess env1 (cwd options)))
                         (InstalledSkill.name s))
             = lstat env2 (join env1 (getAgentBaseDir env1 a (globalOrFalse (global options))
                                        (cwdOrProcess env1 (cwd options)))
                             (InstalledSkill.name s)) \<and>
           readlink env1 (join env1 (getAgentBaseDir env1 a (globalOrFalse (global options))
                                       (cwdOrProcess env1 (cwd options)))
                            (InstalledSkill.name s))
             = readlink env2 (join env1 (getAgentBaseDir env1 a (globalOrFalse (global options))
                                           (cwdOrProcess env1 (cwd options)))
                                (InstalledSkill.name s))))"

text \<open>
  Step 2 to 5 of the checker in the spec's words: the agent is not skipped, its link path
  exists and is a symbolic link, and the target resolved from the link's directory is not
  the canonical path.
\<close>

definition brokenLink :: "Env \<Rightarrow> string \<Rightarrow> string \<Rightarrow> bool \<Rightarrow> string \<Rightarrow> AgentType \<Rightarrow> bool" where
  "brokenLink env skillName canonPath g c a =
     (let linkPath = join env (getAgentBaseDir env a g c) skillName
      in getAgentBaseDir env a g c \<noteq> getCanonicalSkillsDir env g c \<and>
         (case lstat env linkPath of
            Inl e \<Rightarrow> False
          | Inr stats \<Rightarrow>
              isSymbolicLink stats \<and>
              (case readlink env linkPath of
                 Inl e \<Rightarrow> False
               | Inr target \<Rightarrow> resolve env (dirname env linkPath) target \<noteq> canonPath)))"

section \<open>Scenarios\<close>

text \<open>
  A concrete environment after the scenarios of the spec and the fixtures of the test
  file: the canonical store is \<open>/store\<close>; agent \<open>A\<close> links \<open>/agentA/x\<close> to \<open>/other/x\<close>
  and still has a link \<open>/agentA/gone\<close> to the removed \<open>/store/gone\<close>, agent \<open>B\<close> holds a
  copy of \<open>x\<close>, and the base directory of agent \<open>U\<close> is the store itself. The lock
  records \<open>x\<close> with hash \<open>h1\<close> and \<open>gone\<close>; on disk are \<open>x\<close>, whose content hashes to
  \<open>h2\<close>, and \<open>extra\<close>.
\<close>

definition posixJoin :: "string \<Rightarrow> string \<Rightarrow> string" where
  "posixJoin a b = a @ ''/'' @ b"

definition posixDirname :: "string \<Rightarrow> string" where
  "posixDirname p = rev (tl (dropWhile (\<lambda>ch. ch \<noteq> CHR ''/'') (rev p)))"

definition posixResolve :: "string \<Rightarrow> string \<Rightarrow> string" where
  "posixResolve d t = (if take 1 t = ''/'' then t else d @ ''/'' @ t)"

fun compareStrings :: "string \<Rightarrow> string \<Rightarrow> int" where
  "compareStrings [] [] = 0"
| "compareStrings [] (y # ys) = - 1"
| "compareStrings (x # xs) [] = 1"
| "compareStrings (x # xs) (y # ys) =
     (if (of_char x :: nat) < of_char y then - 1
      else if (of_char y :: nat) < of_char x then 1
      else compareStrings xs ys)"

definition symlinkStats :: Stats where
  "symlinkStats = \<lparr>isSymbolicLink = True, isDirectory = False\<rparr>"

definition directoryStats :: Stats where
  "directoryStats = \<lparr>isSymbolicLink = False, isDirectory = True\<rparr>"

definition skillX :: InstalledSkill where
  "skillX = \<lparr>InstalledSkill.name = ''x'', canonicalPath = ''/store/x'',
             InstalledSkill.agents = [''A'', ''B'']\<rparr>"

definition skillExtra :: InstalledSkill where
  "skillExtra = \<lparr>InstalledSkill.name = ''extra'', canonicalPath = ''/store/extra'',
                 InstalledSkill.agents = []\<rparr>"

definition lockX :: LockEntry where
  "lockX = \<lparr>source = ''test/repo'', sourceType = ''github'', computedHash = Some ''h1''\<rparr>"

definition lockGone :: LockEntry where
  "lockGone = \<lparr>source = ''test/repo'', sourceType = ''github'', computedHash = Some ''abc123''\<rparr>"

definition scenarioEnv :: Env where
  "scenarioEnv =
     \<lparr>processCwd = ''/proj'',
      join = posixJoin,
      dirname = posixDirname,
      resolve = posixResolve,
      lstat = (\<lambda>p. if p = ''/agentA/x'' \<or> p = ''/agentA/gone'' then Inr symlinkStats
                    else if p = ''/agentB/x'' \<or> p = ''/store/x'' then Inr directoryStats
                    else Inl (Error ''ENOENT'')),
      readlink = (\<lambda>p. if p = ''/agentA/x'' then Inr ''/other/x''
                       else if p = ''/agentA/gone'' then Inr ''/store/gone''
                       else Inl (Error ''EINVAL'')),
      localeCompare = compareStrings,
      getAgentBaseDir = (\<lambda>a g c. if a = ''A'' then ''/agentA''
                                  else if a = ''B'' then ''/agentB'' else ''/store''),
      getCanonicalSkillsDir = (\<lambda>g c. ''/store''),
      listInstalledSkills = (\<lambda>opts. [skillX, skillExtra]),
      detectInstalledAgents = [''A'', ''B'', ''U''],
      readLocalLock = (\<lambda>c. \<lparr>version = 1, skills = [(''x'', lockX), (''gone'', lockGone)]\<rparr>),
      readSkillLock =
        \<lparr>version = 3, skills = [(''x'', lockX\<lparr>computedHash := None\<rparr>)]\<rparr>,
      parseSkillMd = (\<lambda>p. p = ''/store/x/SKILL.md''),
      computeSkillFolderHash = (\<lambda>p. if p = ''/store/x'' then Inr ''h2''
                                     else Inl (Error ''ENOENT''))\<rparr>"

definition projectOptions :: SkillsOptions where
  "projectOptions = \<lparr>global = None, cwd = None, agentFilter = None\<rparr>"

definition globalOptions :: SkillsOptions where
  "globalOptions = \<lparr>global = Some True, cwd = None, agentFilter = None\<rparr>"

text \<open>The same disk with an unparseable \<open>SKILL.md\<close> in \<open>x\<close>.\<close>

definition invalidMdEnv :: Env where
  "invalidMdEnv = scenarioEnv\<lparr>parseSkillMd := (\<lambda>p. False)\<rparr>"

text \<open>The same disk when hashing the folder of \<open>x\<close> throws.\<close>

definition hashThrowsEnv :: Env where
  "hashThrowsEnv = scenarioEnv\<lparr>computeSkillFolderHash := (\<lambda>p. Inl (Error ''EACCES''))\<rparr>"

text \<open>The run with the failing hash when \<open>x\<close> is neither in the lock nor on disk.\<close>

definition withoutXEnv :: Env where
  "withoutXEnv =
     hashThrowsEnv\<lparr>listInstalledSkills := (\<lambda>opts. [skillExtra]),
                   readLocalLock := (\<lambda>c. \<lparr>version = 1, skills = [(''gone'', lockGone)]\<rparr>)\<rparr>"

text \<open>The same disk when the lock records the empty hash for \<open>x\<close>.\<close>

definition emptyHashEnv :: Env where
  "emptyHashEnv =
     scenarioEnv\<lparr>readLocalLock :=
       (\<lambda>c. \<lparr>version = 1, skills = [(''x'', lockX\<lparr>computedHash := Some []\<rparr>)]\<rparr>)\<rparr>"

text \<open>A second observer of the same disk, which differs on paths the run never probes.\<close>

definition otherViewEnv :: Env where
  "otherViewEnv =
     scenarioEnv\<lparr>lstat := (\<lambda>p. if p = ''/elsewhere'' then Inr directoryStats
                                else lstat scenarioEnv p),
                 parseSkillMd := (\<lambda>p. p = ''/store/x/SKILL.md'' \<or> p = ''/elsewhere/SKILL.md'')\<rparr>"

section \<open>Lemmas\<close>

subsection \<open>The map of installed skills\<close>

lemma Map_get_None_iff: "Map_get m k = None \<longleftrightarrow> k \<notin> fst ` set m"
  by (induction m) (auto split: if_splits)

lemma Map_get_SomeD: "Map_get m k = Some v \<Longrightarrow> (k, v) \<in> set m"
  by (induction m) (auto split: if_splits)

lemma Map_delete_filter: "Map_delete k m = filter (\<lambda>e. fst e \<noteq> k) m"
  by (induction m) auto

lemma Map_get_delete_other: "k' \<noteq> k \<Longrightarrow> Map_get (Map_delete k m) k' = Map_get m k'"
  by (induction m) auto

lemma keys_Map_set:
  "map fst (Map_set k v m) = (if k \<in> set (map fst m) then map fst m else map fst m @ [k])"
  by (induction m) (auto split: if_splits)

lemma set_Map_set: "set (Map_set k v m) \<subseteq> insert (k, v) (set m)"
  by (induction m) (auto split: if_splits)

lemma values_Map_set: "snd ` set (Map_set k v m) \<subseteq> insert v (snd ` set m)"
  using set_Map_set [of k v m] by force

lemma keys_set_Map_set: "fst ` set (Map_set k v m) = insert k (fst ` set m)"
proof -
  have "set (map fst (Map_set k v m)) = insert k (set (map fst m))"
    by (simp only: keys_Map_set) auto
  then show ?thesis by simp
qed

lemma keys_buildInstalledMap:
  "set (map fst (buildInstalledMap xs m)) = set (map fst m) \<union> InstalledSkill.name ` set xs"
  by (induction xs arbitrary: m) (simp_all add: keys_set_Map_set)

lemma distinct_buildInstalledMap:
  "distinct (map fst m) \<Longrightarrow> distinct (map fst (buildInstalledMap xs m))"
  by (induction xs arbitrary: m) (auto simp: keys_Map_set)

lemma values_buildInstalledMap: "snd ` set (buildInstalledMap xs m) \<subseteq> snd ` set m \<union> set xs"
proof (induction xs arbitrary: m)
  case Nil
  show ?case by simp
next
  case (Cons x xs)
  have "snd ` set (buildInstalledMap (x # xs) m)
          \<subseteq> snd ` set (Map_set (InstalledSkill.name x) x m) \<union> set xs"
    using Cons.IH by simp
  also have "\<dots> \<subseteq> snd ` set m \<union> set (x # xs)"
    using values_Map_set [of "InstalledSkill.name x" x m] by auto
  finally show ?case .
qed

subsection \<open>Sorting\<close>

lemma mset_insertSorted: "mset (insertSorted cmp x xs) = add_mset x (mset xs)"
  by (induction xs) auto

lemma mset_Array_sort: "mset (Array_sort cmp xs) = mset xs"
  by (induction xs) (auto simp: mset_insertSorted)

lemma set_Array_sort: "set (Array_sort cmp xs) = set xs"
  using mset_Array_sort [of cmp xs] by (metis set_mset_mset)

lemma filter_Array_sort_single:
  assumes "filter P xs = [r]"
  shows "filter P (Array_sort cmp xs) = [r]"
proof -
  have "mset (filter P (Array_sort cmp xs)) = mset (filter P xs)"
    by (simp add: mset_Array_sort)
  then have "mset (filter P (Array_sort cmp xs)) = mset [r]"
    by (simp only: assms)
  then show ?thesis by (metis mset_single_iff mset.simps)
qed

lemma sorted_insertSorted:
  assumes "consistentComparator cmp" and "sorted_wrt (\<lambda>a b. cmp a b \<le> 0) xs"
  shows "sorted_wrt (\<lambda>a b. cmp a b \<le> 0) (insertSorted cmp x xs)"
  using assms(2)
proof (induction xs)
  case Nil
  show ?case by simp
next
  case (Cons y ys)
  have tot: "\<And>a b. cmp a b \<le> 0 \<or> cmp b a \<le> 0"
    and tr: "\<And>a b c. cmp a b \<le> 0 \<Longrightarrow> cmp b c \<le> 0 \<Longrightarrow> cmp a c \<le> 0"
    using assms(1) unfolding consistentComparator_def by blast+
  show ?case
  proof (cases "cmp x y \<le> 0")
    case True
    then have "\<forall>z\<in>set ys. cmp x z \<le> 0" using Cons.prems tr by auto
    then show ?thesis using True Cons.prems by simp
  next
    case False
    then have "cmp y x \<le> 0" using tot by blast
    moreover have "set (insertSorted cmp x ys) = insert x (set ys)"
      using mset_insertSorted [of cmp x ys] by (metis set_mset_mset set_mset_add_mset_insert)
    ultimately show ?thesis using False Cons by auto
  qed
qed

lemma sorted_Array_sort:
  "consistentComparator cmp \<Longrightarrow> sorted_wrt (\<lambda>a b. cmp a b \<le> 0) (Array_sort cmp xs)"
  by (induction xs) (auto intro: sorted_insertSorted)

lemma distinct_map_Array_sort:
  "distinct (map f (Array_sort cmp xs)) = distinct (map f xs)"
proof -
  have "mset (map f (Array_sort cmp xs)) = mset (map f xs)"
    by (simp add: mset_Array_sort)
  then show ?thesis by (rule mset_eq_imp_distinct_iff)
qed

lemma tally_Array_sort: "tally (Array_sort cmp xs) = tally xs"
proof -
  have len: "\<And>P. length (filter P (Array_sort cmp xs)) = length (filter P xs)"
  proof -
    fix P :: "VerifyResult \<Rightarrow> bool"
    have "mset (filter P (Array_sort cmp xs)) = mset (filter P xs)"
      by (simp add: mset_Array_sort)
    then show "length (filter P (Array_sort cmp xs)) = length (filter P xs)"
      by (metis size_mset)
  qed
  have "mset (map (\<lambda>r. length (brokenSymlinks r)) (Array_sort cmp xs))
          = mset (map (\<lambda>r. length (brokenSymlinks r)) xs)"
    by (simp add: mset_Array_sort)
  then have "sum_list (map (\<lambda>r. length (brokenSymlinks r)) (Array_sort cmp xs))
          = sum_list (map (\<lambda>r. length (brokenSymlinks r)) xs)"
    by (metis sum_mset_sum_list)
  then show ?thesis by (simp add: tally_def len)
qed

subsection \<open>The checker\<close>

lemma checkAgent_eq:
  "checkAgent env n cp g c found a =
     found @ (if brokenLink env n cp g c a
              then [\<lparr>agent = a, link = join env (getAgentBaseDir env a g c) n\<rparr>] else [])"
  by (simp add: checkAgent_def brokenLink_def Let_def split: sum.splits)

lemma checkAgents_eq:
  "checkAgents env n cp g c ags found =
     found @ map (\<lambda>a. \<lparr>agent = a, link = join env (getAgentBaseDir env a g c) n\<rparr>)
               (filter (brokenLink env n cp g c) ags)"
  by (induction ags arbitrary: found) (simp_all add: checkAgent_eq)

subsection \<open>One step of each loop\<close>

lemma Map_delete_absent: "Map_get m k = None \<Longrightarrow> Map_delete k m = m"
  by (induction m) (auto split: if_splits)

lemma lockStep_missing:
  assumes "Map_get (installedMap st) (fst e) = None"
  shows "lockStep env g c ags st e =
     st\<lparr>resultsV := resultsV st @
           [\<lparr>name = fst e, path = [], status = Missing, expectedHash = None,
             actualHash = None, agents = [], brokenSymlinks = [],
             error = Some ''Skill in lock file but not found on disk''\<rparr>],
        countsV := (countsV st)\<lparr>missing := missing (countsV st) + 1\<rparr>\<rparr>"
  using assms by (simp add: lockStep_def Let_def)

lemma lockStep_invalidMd:
  assumes "Map_get (installedMap st) (fst e) = Some inst"
    and "\<not> parseSkillMd env (join env (canonicalPath inst) ''SKILL.md'')"
  shows "lockStep env g c ags st e =
     st\<lparr>installedMap := Map_delete (fst e) (installedMap st),
        resultsV := resultsV st @
           [\<lparr>name = fst e, path = canonicalPath inst, status = Invalid, expectedHash = None,
             actualHash = None, agents = InstalledSkill.agents inst, brokenSymlinks = [],
             error = Some ''SKILL.md is missing or invalid''\<rparr>],
        countsV := (countsV st)\<lparr>invalid := invalid (countsV st) + 1\<rparr>\<rparr>"
  using assms by (simp add: lockStep_def Let_def)

lemma lockStep_global:
  assumes "Map_get (installedMap st) (fst e) = Some inst"
    and "parseSkillMd env (join env (canonicalPath inst) ''SKILL.md'')"
  shows "lockStep env True c ags st e =
     st\<lparr>installedMap := Map_delete (fst e) (installedMap st),
        resultsV := resultsV st @
           [\<lparr>name = fst e, path = canonicalPath inst, status = Ok, expectedHash = None,
             actualHash = None, agents = InstalledSkill.agents inst,
             brokenSymlinks = checkSymlinkIntegrity env (fst e) (canonicalPath inst) ags
                                \<lparr>global = Some True, cwd = Some c\<rparr>,
             error = None\<rparr>],
        countsV := (countsV st)
           \<lparr>ok := ok (countsV st) + 1,
            brokenSymlinksCount := brokenSymlinksCount (countsV st) +
              length (checkSymlinkIntegrity env (fst e) (canonicalPath inst) ags
                        \<lparr>global = Some True, cwd = Some c\<rparr>)\<rparr>\<rparr>"
  using assms by (simp add: lockStep_def Let_def)

lemma lockStep_hashThrows:
  assumes "Map_get (installedMap st) (fst e) = Some inst"
    and "parseSkillMd env (join env (canonicalPath inst) ''SKILL.md'')"
    and "computeSkillFolderHash env (canonicalPath inst) = Inl err"
  shows "lockStep env False c ags st e =
     st\<lparr>installedMap := Map_delete (fst e) (installedMap st),
        resultsV := resultsV st @
           [\<lparr>name = fst e, path = canonicalPath inst, status = Invalid,
             expectedHash = computedHash (snd e), actualHash = None,
             agents = InstalledSkill.agents inst,
             brokenSymlinks = checkSymlinkIntegrity env (fst e) (canonicalPath inst) ags
                                \<lparr>global = Some False, cwd = Some c\<rparr>,
             error = None\<rparr>],
        countsV := (countsV st)
           \<lparr>invalid := invalid (countsV st) + 1,
            brokenSymlinksCount := brokenSymlinksCount (countsV st) +
              length (checkSymlinkIntegrity env (fst e) (canonicalPath inst) ags
                        \<lparr>global = Some False, cwd = Some c\<rparr>)\<rparr>\<rparr>"
  using assms by (simp add: lockStep_def Let_def)

lemma lockStep_modified:
  assumes "Map_get (installedMap st) (fst e) = Some inst"
    and "parseSkillMd env (join env (canonicalPath inst) ''SKILL.md'')"
    and "computeSkillFolderHash env (canonicalPath inst) = Inr h"
    and "truthy (computedHash (snd e)) \<and> Some h \<noteq> computedHash (snd e)"
  shows "lockStep env False c ags st e =
     st\<lparr>installedMap := Map_delete (fst e) (installedMap st),
        resultsV := resultsV st @
           [\<lparr>name = fst e, path = canonicalPath inst, status = Modified,
             expectedHash = computedHash (snd e), actualHash = Some h,
             agents = InstalledSkill.agents inst,
             brokenSymlinks = checkSymlinkIntegrity env (fst e) (canonicalPath inst) ags
                                \<lparr>global = Some False, cwd = Some c\<rparr>,
             error = None\<rparr>],
        countsV := (countsV st)
           \<lparr>modified := modified (countsV st) + 1,
            brokenSymlinksCount := brokenSymlinksCount (countsV st) +
              length (checkSymlinkIntegrity env (fst e) (canonicalPath inst) ags
                        \<lparr>global = Some False, cwd = Some c\<rparr>)\<rparr>\<rparr>"
  using assms by (simp add: lockStep_def Let_def)

lemma lockStep_ok:
  assumes "Map_get (installedMap st) (fst e) = Some inst"
    and "parseSkillMd env (join env (canonicalPath inst) ''SKILL.md'')"
    and "computeSkillFolderHash env (canonicalPath inst) = Inr h"
    and "\<not> (truthy (computedHash (snd e)) \<and> Some h \<noteq> computedHash (snd e))"
  shows "lockStep env False c ags st e =
     st\<lparr>installedMap := Map_delete (fst e) (installedMap st),
        resultsV := resultsV st @
           [\<lparr>name = fst e, path = canonicalPath inst, status = Ok,
             expectedHash = computedHash (snd e), actualHash = Some h,
             agents = InstalledSkill.agents inst,
             brokenSymlinks = checkSymlinkIntegrity env (fst e) (canonicalPath inst) ags
                                \<lparr>global = Some False, cwd = Some c\<rparr>,
             error = None\<rparr>],
        countsV := (countsV st)
           \<lparr>ok := ok (countsV st) + 1,
            brokenSymlinksCount := brokenSymlinksCount (countsV st) +
              length (checkSymlinkIntegrity env (fst e) (canonicalPath inst) ags
                        \<lparr>global = Some False, cwd = Some c\<rparr>)\<rparr>\<rparr>"
  using assms by (simp add: lockStep_def Let_def)

text \<open>The six ways through the body of the first loop.\<close>

lemma lockStep_cases:
  obtains (missing) "Map_get (installedMap st) (fst e) = None"
  | (invalidMd) inst where "Map_get (installedMap st) (fst e) = Some inst"
      "\<not> parseSkillMd env (join env (canonicalPath inst) ''SKILL.md'')"
  | (global) inst where "Map_get (installedMap st) (fst e) = Some inst"
      "parseSkillMd env (join env (canonicalPath inst) ''SKILL.md'')" "g"
  | (hashThrows) inst err where "Map_get (installedMap st) (fst e) = Some inst"
      "parseSkillMd env (join env (canonicalPath inst) ''SKILL.md'')" "\<not> g"
      "computeSkillFolderHash env (canonicalPath inst) = Inl err"
  | (modified) inst h where "Map_get (installedMap st) (fst e) = Some inst"
      "parseSkillMd env (join env (canonicalPath inst) ''SKILL.md'')" "\<not> g"
      "computeSkillFolderHash env (canonicalPath inst) = Inr h"
      "truthy (computedHash (snd e)) \<and> Some h \<noteq> computedHash (snd e)"
  | (ok) inst h where "Map_get (installedMap st) (fst e) = Some inst"
      "parseSkillMd env (join env (canonicalPath inst) ''SKILL.md'')" "\<not> g"
      "computeSkillFolderHash env (canonicalPath inst) = Inr h"
      "\<not> (truthy (computedHash (snd e)) \<and> Some h \<noteq> computedHash (snd e))"
proof (cases "Map_get (installedMap st) (fst e)")
  case None
  then show ?thesis by (rule missing)
next
  case (Some inst)
  show ?thesis
  proof (cases "parseSkillMd env (join env (canonicalPath inst) ''SKILL.md'')")
    case False
    with Some show ?thesis by (rule invalidMd)
  next
    case True
    show ?thesis
    proof (cases g)
      case True
      with Some \<open>parseSkillMd env (join env (canonicalPath inst) ''SKILL.md'')\<close>
      show ?thesis by (rule global)
    next
      case False
      note local = this
      show ?thesis
      proof (cases "computeSkillFolderHash env (canonicalPath inst)")
        case (Inl err)
        with Some True local show ?thesis by (rule hashThrows)
      next
        case (Inr h)
        show ?thesis
        proof (cases "truthy (computedHash (snd e)) \<and> Some h \<noteq> computedHash (snd e)")
          case True
          with Some \<open>parseSkillMd env (join env (canonicalPath inst) ''SKILL.md'')\<close>
            local Inr show ?thesis by (rule modified)
        next
          case False
          with Some True local Inr show ?thesis by (rule ok)
        qed
      qed
    qed
  qed
qed

lemmas lockStep_simps =
  lockStep_missing lockStep_invalidMd lockStep_global lockStep_hashThrows
  lockStep_modified lockStep_ok

lemma lockedResult_checked:
  "lockedResult env g c ags m e =
     (case Map_get m (fst e) of
        None \<Rightarrow>
          \<lparr>name = fst e, path = [], status = Missing, expectedHash = None, actualHash = None,
           agents = [], brokenSymlinks = [],
           error = Some ''Skill in lock file but not found on disk''\<rparr>
      | Some inst \<Rightarrow>
          if \<not> parseSkillMd env (join env (canonicalPath inst) ''SKILL.md'') then
            \<lparr>name = fst e, path = canonicalPath inst, status = Invalid, expectedHash = None,
             actualHash = None, agents = InstalledSkill.agents inst, brokenSymlinks = [],
             error = Some ''SKILL.md is missing or invalid''\<rparr>
          else
            \<lparr>name = fst e, path = canonicalPath inst,
             status = (if g then Ok
                       else case computeSkillFolderHash env (canonicalPath inst) of
                              Inl err \<Rightarrow> Invalid
                            | Inr h \<Rightarrow> if truthy (computedHash (snd e)) \<and>
                                          Some h \<noteq> computedHash (snd e)
                                       then Modified else Ok),
             expectedHash = (if g then None else computedHash (snd e)),
             actualHash = (if g then None
                           else case computeSkillFolderHash env (canonicalPath inst) of
                                  Inl err \<Rightarrow> None | Inr h \<Rightarrow> Some h),
             agents = InstalledSkill.agents inst,
             brokenSymlinks = checkSymlinkIntegrity env (fst e) (canonicalPath inst) ags
                                \<lparr>global = Some g, cwd = Some c\<rparr>,
             error = None\<rparr>)"
proof (cases rule: lockStep_cases
         [where st = "\<lparr>resultsV = [], countsV = zeroCounts, installedMap = m\<rparr>"
            and e = e and env = env and g = g])
  case missing
  then show ?thesis by (simp add: lockedResult_def lockStep_missing)
next
  case (invalidMd inst)
  then show ?thesis by (simp add: lockedResult_def lockStep_invalidMd)
next
  case (global inst)
  then show ?thesis by (simp add: lockedResult_def lockStep_global)
next
  case (hashThrows inst err)
  then show ?thesis by (simp add: lockedResult_def lockStep_hashThrows)
next
  case (modified inst h)
  then show ?thesis by (simp add: lockedResult_def lockStep_modified)
next
  case (ok inst h)
  then show ?thesis by (simp add: lockedResult_def lockStep_ok)
qed

lemma lockStep_resultsV:
  "resultsV (lockStep env g c ags st e) =
     resultsV st @ [lockedResult env g c ags (installedMap st) e]"
proof (cases rule: lockStep_cases [where st = st and e = e and env = env and g = g])
  case missing
  then show ?thesis by (simp add: lockedResult_checked lockStep_missing)
next
  case (invalidMd inst)
  then show ?thesis by (simp add: lockedResult_checked lockStep_invalidMd)
next
  case (global inst)
  then show ?thesis by (simp add: lockedResult_checked lockStep_global)
next
  case (hashThrows inst err)
  then show ?thesis by (simp add: lockedResult_checked lockStep_hashThrows)
next
  case (modified inst h)
  then show ?thesis by (simp add: lockedResult_checked lockStep_modified)
next
  case (ok inst h)
  then show ?thesis by (simp add: lockedResult_checked lockStep_ok)
qed

lemma lockStep_installedMap:
  "installedMap (lockStep env g c ags st e) = Map_delete (fst e) (installedMap st)"
proof (cases rule: lockStep_cases [where st = st and e = e and env = env and g = g])
  case missing
  then show ?thesis by (simp add: lockStep_missing Map_delete_absent)
next
  case (invalidMd inst)
  then show ?thesis by (simp add: lockStep_invalidMd)
next
  case (global inst)
  then show ?thesis by (simp add: lockStep_global)
next
  case (hashThrows inst err)
  then show ?thesis by (simp add: lockStep_hashThrows)
next
  case (modified inst h)
  then show ?thesis by (simp add: lockStep_modified)
next
  case (ok inst h)
  then show ?thesis by (simp add: lockStep_ok)
qed

lemma lockStep_countsV:
  assumes "countsV st = tally (resultsV st)"
  shows "countsV (lockStep env g c ags st e) = tally (resultsV (lockStep env g c ags st e))"
proof (cases rule: lockStep_cases [where st = st and e = e and env = env and g = g])
  case missing
  then show ?thesis using assms by (simp add: lockStep_missing tally_def)
next
  case (invalidMd inst)
  then show ?thesis using assms by (simp add: lockStep_invalidMd tally_def)
next
  case (global inst)
  then show ?thesis using assms by (simp add: lockStep_global tally_def)
next
  case (hashThrows inst err)
  then show ?thesis using assms by (simp add: lockStep_hashThrows tally_def)
next
  case (modified inst h)
  then show ?thesis using assms by (simp add: lockStep_modified tally_def)
next
  case (ok inst h)
  then show ?thesis using assms by (simp add: lockStep_ok tally_def)
qed

lemma untrackedStep_resultsV:
  "resultsV (untrackedStep env g c ags st e) = resultsV st @ [untrackedResult env g c ags e]"
  by (simp add: untrackedStep_def untrackedResult_def Let_def)

lemma untrackedStep_countsV:
  "countsV st = tally (resultsV st) \<Longrightarrow>
   countsV (untrackedStep env g c ags st e) = tally (resultsV (untrackedStep env g c ags st e))"
  by (simp add: untrackedStep_def Let_def tally_def)

lemma name_lockedResult: "name (lockedResult env g c ags m e) = fst e"
  by (simp add: lockedResult_checked split: option.splits)

lemma name_untrackedResult: "name (untrackedResult env g c ags e) = fst e"
  by (simp add: untrackedStep_def untrackedResult_def Let_def)

lemma lockedResult_cong_map:
  "Map_get m (fst e) = Map_get m' (fst e) \<Longrightarrow>
   lockedResult env g c ags m e = lockedResult env g c ags m' e"
  by (simp only: lockedResult_checked)

lemma untrackedResult_checked:
  "untrackedResult env g c ags e =
     \<lparr>name = fst e, path = canonicalPath (snd e), status = Untracked, expectedHash = None,
      actualHash = None, agents = InstalledSkill.agents (snd e),
      brokenSymlinks = checkSymlinkIntegrity env (fst e) (canonicalPath (snd e)) ags
                         \<lparr>global = Some g, cwd = Some c\<rparr>,
      error = Some ''Skill on disk but not in lock file''\<rparr>"
  by (simp add: untrackedStep_def untrackedResult_def Let_def)

subsection \<open>The two loops\<close>

lemma lockLoop_installedMap:
  "installedMap (lockLoop env g c ags es st) =
     filter (\<lambda>e. fst e \<notin> fst ` set es) (installedMap st)"
proof (induction es arbitrary: st)
  case Nil
  show ?case by simp
next
  case (Cons e es)
  show ?case
    by (simp add: Cons.IH lockStep_installedMap Map_delete_filter conj_commute)
qed

lemma lockLoop_names:
  "map name (resultsV (lockLoop env g c ags es st)) = map name (resultsV st) @ map fst es"
  by (induction es arbitrary: st) (simp_all add: lockStep_resultsV name_lockedResult)

lemma lockLoop_resultsV:
  "distinct (map fst es) \<Longrightarrow>
   resultsV (lockLoop env g c ags es st) =
     resultsV st @ map (lockedResult env g c ags (installedMap st)) es"
proof (induction es arbitrary: st)
  case Nil
  show ?case by simp
next
  case (Cons e es)
  have "lockedResult env g c ags (Map_delete (fst e) (installedMap st)) e' =
        lockedResult env g c ags (installedMap st) e'" if "e' \<in> set es" for e'
  proof (rule lockedResult_cong_map)
    from that Cons.prems have "fst e' \<noteq> fst e" by (metis distinct.simps(2) image_eqI list.simps(9) set_map)
    then show "Map_get (Map_delete (fst e) (installedMap st)) (fst e') =
               Map_get (installedMap st) (fst e')"
      by (rule Map_get_delete_other)
  qed
  then have "map (lockedResult env g c ags (Map_delete (fst e) (installedMap st))) es =
             map (lockedResult env g c ags (installedMap st)) es"
    by simp
  moreover have "distinct (map fst es)" using Cons.prems by simp
  ultimately show ?case
    by (simp add: Cons.IH lockStep_resultsV lockStep_installedMap)
qed

lemma lockLoop_countsV:
  "countsV st = tally (resultsV st) \<Longrightarrow>
   countsV (lockLoop env g c ags es st) = tally (resultsV (lockLoop env g c ags es st))"
  by (induction es arbitrary: st) (simp_all add: lockStep_countsV)

lemma untrackedLoop_resultsV:
  "resultsV (untrackedLoop env g c ags m st) =
     resultsV st @ map (untrackedResult env g c ags) m"
  by (induction m arbitrary: st) (simp_all add: untrackedStep_resultsV)

lemma untrackedLoop_countsV:
  "countsV st = tally (resultsV st) \<Longrightarrow>
   countsV (untrackedLoop env g c ags m st) = tally (resultsV (untrackedLoop env g c ags m st))"
  by (induction m arbitrary: st) (simp_all add: untrackedStep_countsV)

lemma brokenLink_iff:
  "brokenLink env n cp g c a \<longleftrightarrow>
     getAgentBaseDir env a g c \<noteq> getCanonicalSkillsDir env g c \<and>
     (\<exists>stats. lstat env (join env (getAgentBaseDir env a g c) n) = Inr stats \<and>
              isSymbolicLink stats) \<and>
     (\<exists>target. readlink env (join env (getAgentBaseDir env a g c) n) = Inr target \<and>
               resolve env (dirname env (join env (getAgentBaseDir env a g c) n)) target \<noteq> cp)"
proof (cases "lstat env (join env (getAgentBaseDir env a g c) n)")
  case (Inl e)
  then show ?thesis by (simp add: brokenLink_def)
next
  case (Inr stats)
  then show ?thesis
    by (cases "readlink env (join env (getAgentBaseDir env a g c) n)")
       (simp_all add: brokenLink_def)
qed

subsection \<open>The run as a whole\<close>

lemma verifySkills_unfold:
  "verifySkills env options =
     \<lparr>scope = (if globalOrFalse (global options) then Global else Project),
      results = Array_sort (\<lambda>a b. localeCompare env (name a) (name b))
                  (resultsV (loopsState env options)),
      counts = countsV (loopsState env options)\<rparr>"
  by (simp add: verifySkills_def loopsState_def Let_def)

lemma results_verifySkills:
  "results (verifySkills env options) =
     Array_sort (\<lambda>a b. localeCompare env (name a) (name b)) (resultsV (loopsState env options))"
  by (simp add: verifySkills_unfold)

lemma counts_verifySkills: "counts (verifySkills env options) = countsV (loopsState env options)"
  by (simp add: verifySkills_unfold)

lemma tally_Nil: "tally [] = zeroCounts"
  by (simp add: tally_def zeroCounts_def)

lemma loopsState_countsV:
  "countsV (loopsState env options) = tally (resultsV (loopsState env options))"
  unfolding loopsState_def Let_def
  by (rule untrackedLoop_countsV, rule lockLoop_countsV) (simp add: tally_Nil)

lemma loopsState_names:
  "map name (resultsV (loopsState env options)) =
     map fst (lockedSkillsOf env options) @
     map fst (filter (\<lambda>e. fst e \<notin> fst ` set (lockedSkillsOf env options))
                (installedMapOf env options))"
  by (simp add: loopsState_def Let_def untrackedLoop_resultsV lockLoop_names
        lockLoop_installedMap name_untrackedResult cong: map_cong)

lemma loopsState_resultsV:
  assumes "distinct (map fst (lockedSkillsOf env options))"
  shows "resultsV (loopsState env options) =
     map (lockedResult env (globalOrFalse (global options)) (cwdOrProcess env (cwd options))
            (agentsToCheckOf env options) (installedMapOf env options))
       (lockedSkillsOf env options) @
     map (untrackedResult env (globalOrFalse (global options))
            (cwdOrProcess env (cwd options)) (agentsToCheckOf env options))
       (filter (\<lambda>e. fst e \<notin> fst ` set (lockedSkillsOf env options))
          (installedMapOf env options))"
  using assms
  by (simp add: loopsState_def Let_def untrackedLoop_resultsV lockLoop_resultsV
        lockLoop_installedMap)

lemma distinct_keys_installedMapOf: "distinct (map fst (installedMapOf env options))"
  unfolding installedMapOf_def by (rule distinct_buildInstalledMap) simp

lemma keys_installedMapOf:
  "fst ` set (installedMapOf env options) =
     InstalledSkill.name ` set (installedSkillsOf env options)"
  using keys_buildInstalledMap [of "installedSkillsOf env options" "[]"]
  by (simp add: installedMapOf_def)

lemma loopsState_distinct_names:
  assumes "distinct (map fst (lockedSkillsOf env options))"
  shows "distinct (map name (resultsV (loopsState env options)))"
proof -
  have "distinct (map fst (filter (\<lambda>e. fst e \<notin> fst ` set (lockedSkillsOf env options))
                             (installedMapOf env options)))"
    by (rule distinct_map_filter) (rule distinct_keys_installedMapOf)
  moreover have "set (map fst (lockedSkillsOf env options)) \<inter>
                 set (map fst (filter (\<lambda>e. fst e \<notin> fst ` set (lockedSkillsOf env options))
                                 (installedMapOf env options))) = {}"
    by force
  ultimately show ?thesis
    using assms by (simp only: loopsState_names distinct_append)
qed

lemma filter_key_single:
  "distinct (map f xs) \<Longrightarrow> x \<in> set xs \<Longrightarrow> filter (\<lambda>y. f y = f x) xs = [x]"
proof (induction xs)
  case Nil
  then show ?case by simp
next
  case (Cons y ys)
  show ?case
  proof (cases "x = y")
    case True
    have "\<forall>z\<in>set ys. f z \<noteq> f y"
      using Cons.prems(1) by (metis distinct.simps(2) image_eqI list.simps(9) set_map)
    then have "filter (\<lambda>z. f z = f y) ys = []"
      by (simp add: filter_empty_conv)
    with True show ?thesis by simp
  next
    case False
    then have "x \<in> set ys" using Cons.prems(2) by simp
    moreover from this have "f y \<noteq> f x" using Cons.prems(1)
      by (metis distinct.simps(2) image_eqI list.simps(9) set_map)
    ultimately show ?thesis using Cons by simp
  qed
qed

text \<open>
  With the keys of the lock pairwise different, the one result named after a lock entry is
  the one the first loop pushes for it, computed on the map as first built.
\<close>

lemma result_of_lock_entry:
  assumes "distinct (map fst (lockedSkillsOf env options))"
    and "(n, e) \<in> set (lockedSkillsOf env options)"
  shows "filter (\<lambda>r. name r = n) (results (verifySkills env options)) =
     [lockedResult env (globalOrFalse (global options)) (cwdOrProcess env (cwd options))
        (agentsToCheckOf env options) (installedMapOf env options) (n, e)]"
proof -
  let ?r = "lockedResult env (globalOrFalse (global options)) (cwdOrProcess env (cwd options))
              (agentsToCheckOf env options) (installedMapOf env options) (n, e)"
  have mem: "?r \<in> set (resultsV (loopsState env options))"
    using assms by (auto simp: loopsState_resultsV)
  have "filter (\<lambda>r. name r = name ?r) (resultsV (loopsState env options)) = [?r]"
    using loopsState_distinct_names [OF assms(1)] mem by (rule filter_key_single)
  then have "filter (\<lambda>r. name r = n) (resultsV (loopsState env options)) = [?r]"
    by (simp add: name_lockedResult)
  then show ?thesis
    unfolding results_verifySkills by (rule filter_Array_sort_single)
qed

lemma tally_total:
  "ok (tally rs) + modified (tally rs) + missing (tally rs) + untracked (tally rs)
     + invalid (tally rs) = length rs"
proof (induction rs)
  case Nil
  show ?case by (simp add: tally_def)
next
  case (Cons r rs)
  then show ?case by (cases "status r") (simp_all add: tally_def)
qed

lemma compareStrings_total: "compareStrings a b \<le> 0 \<or> compareStrings b a \<le> 0"
  by (induction a b rule: compareStrings.induct) auto

lemma compareStrings_Cons:
  "compareStrings (x # xs) (y # ys) \<le> 0 \<longleftrightarrow>
     (of_char x :: nat) < of_char y \<or>
     ((of_char x :: nat) = of_char y \<and> compareStrings xs ys \<le> 0)"
  by auto

lemma compareStrings_trans:
  "compareStrings a b \<le> 0 \<Longrightarrow> compareStrings b c \<le> 0 \<Longrightarrow> compareStrings a c \<le> 0"
proof (induction a arbitrary: b c)
  case Nil
  then show ?case by (cases c) simp_all
next
  case (Cons x xs)
  from Cons.prems(1) obtain y ys where b: "b = y # ys" by (cases b) auto
  from Cons.prems(2) b obtain z zs where c: "c = z # zs" by (cases c) auto
  from Cons.prems b c
  have xy: "(of_char x :: nat) < of_char y \<or>
            ((of_char x :: nat) = of_char y \<and> compareStrings xs ys \<le> 0)"
    and yz: "(of_char y :: nat) < of_char z \<or>
            ((of_char y :: nat) = of_char z \<and> compareStrings ys zs \<le> 0)"
    by (simp_all only: compareStrings_Cons)
  have "(of_char x :: nat) < of_char z \<or>
        ((of_char x :: nat) = of_char z \<and> compareStrings xs zs \<le> 0)"
    using xy yz Cons.IH [of ys zs] by auto
  then show ?case unfolding c by (simp only: compareStrings_Cons)
qed

lemma consistentComparator_compareStrings: "consistentComparator compareStrings"
  unfolding consistentComparator_def
  using compareStrings_total compareStrings_trans by blast


subsection \<open>Runs that observe the same\<close>

lemma set_buildInstalledMap:
  "set (buildInstalledMap xs m) \<subseteq> set m \<union> (\<lambda>s. (InstalledSkill.name s, s)) ` set xs"
proof (induction xs arbitrary: m)
  case Nil
  show ?case by simp
next
  case (Cons x xs)
  have "set (buildInstalledMap (x # xs) m)
          \<subseteq> set (Map_set (InstalledSkill.name x) x m)
            \<union> (\<lambda>s. (InstalledSkill.name s, s)) ` set xs"
    using Cons.IH by simp
  also have "\<dots> \<subseteq> set m \<union> (\<lambda>s. (InstalledSkill.name s, s)) ` set (x # xs)"
    using set_Map_set [of "InstalledSkill.name x" x m] by auto
  finally show ?case .
qed

lemma checkSymlinkIntegrity_cong:
  assumes "processCwd env1 = processCwd env2" and "join env1 = join env2"
    and "dirname env1 = dirname env2" and "resolve env1 = resolve env2"
    and "getAgentBaseDir env1 = getAgentBaseDir env2"
    and "getCanonicalSkillsDir env1 = getCanonicalSkillsDir env2"
    and "\<forall>a \<in> set ags.
           lstat env1 (join env1 (getAgentBaseDir env1 a (globalOrFalse (global opts))
                                    (cwdOrProcess env1 (cwd opts))) n)
             = lstat env2 (join env1 (getAgentBaseDir env1 a (globalOrFalse (global opts))
                                        (cwdOrProcess env1 (cwd opts))) n) \<and>
           readlink env1 (join env1 (getAgentBaseDir env1 a (globalOrFalse (global opts))
                                       (cwdOrProcess env1 (cwd opts))) n)
             = readlink env2 (join env1 (getAgentBaseDir env1 a (globalOrFalse (global opts))
                                           (cwdOrProcess env1 (cwd opts))) n)"
  shows "checkSymlinkIntegrity env1 n cp ags opts = checkSymlinkIntegrity env2 n cp ags opts"
proof -
  have c: "cwdOrProcess env1 (cwd opts) = cwdOrProcess env2 (cwd opts)"
    using assms(1) by (simp add: cwdOrProcess_def split: option.splits)
  have "brokenLink env1 n cp (globalOrFalse (global opts)) (cwdOrProcess env1 (cwd opts)) a
        = brokenLink env2 n cp (globalOrFalse (global opts)) (cwdOrProcess env1 (cwd opts)) a"
    if "a \<in> set ags" for a
    using assms(7) that
    by (simp add: brokenLink_iff assms(2-6) [symmetric])
  then have "filter (brokenLink env1 n cp (globalOrFalse (global opts))
                       (cwdOrProcess env1 (cwd opts))) ags
           = filter (brokenLink env2 n cp (globalOrFalse (global opts))
                       (cwdOrProcess env1 (cwd opts))) ags"
    by (simp cong: filter_cong)
  then show ?thesis
    by (simp add: checkSymlinkIntegrity_def checkAgents_eq c [symmetric] assms(2,5) [symmetric])
qed

lemma cwdOrProcess_cong:
  "processCwd env1 = processCwd env2 \<Longrightarrow> cwdOrProcess env1 x = cwdOrProcess env2 x"
  by (simp add: cwdOrProcess_def split: option.splits)

text \<open>
  One step of the first loop depends on the environment only through the answers about
  the skills in the map.
\<close>

lemma lockStep_cong:
  assumes j: "join env1 = join env2"
    and p: "\<forall>x \<in> set (installedMap st).
              parseSkillMd env1 (join env2 (canonicalPath (snd x)) ''SKILL.md'')
                = parseSkillMd env2 (join env2 (canonicalPath (snd x)) ''SKILL.md'')"
    and h: "\<forall>x \<in> set (installedMap st).
              g \<or> computeSkillFolderHash env1 (canonicalPath (snd x))
                    = computeSkillFolderHash env2 (canonicalPath (snd x))"
    and k: "\<forall>x \<in> set (installedMap st).
              checkSymlinkIntegrity env1 (fst x) (canonicalPath (snd x)) ags
                  \<lparr>global = Some g, cwd = Some c\<rparr>
                = checkSymlinkIntegrity env2 (fst x) (canonicalPath (snd x)) ags
                  \<lparr>global = Some g, cwd = Some c\<rparr>"
  shows "lockStep env1 g c ags st e = lockStep env2 g c ags st e"
proof (cases "Map_get (installedMap st) (fst e)")
  case None
  then show ?thesis by (simp add: lockStep_missing)
next
  case (Some inst)
  then have mem: "(fst e, inst) \<in> set (installedMap st)" by (rule Map_get_SomeD)
  from p mem
  have p': "parseSkillMd env1 (join env2 (canonicalPath inst) ''SKILL.md'')
              = parseSkillMd env2 (join env2 (canonicalPath inst) ''SKILL.md'')"
    by force
  from k mem
  have k': "checkSymlinkIntegrity env1 (fst e) (canonicalPath inst) ags
                \<lparr>global = Some g, cwd = Some c\<rparr>
            = checkSymlinkIntegrity env2 (fst e) (canonicalPath inst) ags
                \<lparr>global = Some g, cwd = Some c\<rparr>"
    by force
  show ?thesis
  proof (cases g)
    case True
    from k' True
    have kT: "checkSymlinkIntegrity env1 (fst e) (canonicalPath inst) ags
                \<lparr>global = Some True, cwd = Some c\<rparr>
            = checkSymlinkIntegrity env2 (fst e) (canonicalPath inst) ags
                \<lparr>global = Some True, cwd = Some c\<rparr>"
      by simp
    show ?thesis using True by (simp add: lockStep_def Let_def Some j p' kT)
  next
    case False
    with h mem
    have h': "computeSkillFolderHash env1 (canonicalPath inst)
                = computeSkillFolderHash env2 (canonicalPath inst)"
      by force
    from k' False
    have kF: "checkSymlinkIntegrity env1 (fst e) (canonicalPath inst) ags
                \<lparr>global = Some False, cwd = Some c\<rparr>
            = checkSymlinkIntegrity env2 (fst e) (canonicalPath inst) ags
                \<lparr>global = Some False, cwd = Some c\<rparr>"
      by simp
    show ?thesis using False by (simp add: lockStep_def Let_def Some j p' kF h')
  qed
qed

lemma untrackedStep_cong:
  assumes "checkSymlinkIntegrity env1 (fst e) (canonicalPath (snd e)) ags
               \<lparr>global = Some g, cwd = Some c\<rparr>
           = checkSymlinkIntegrity env2 (fst e) (canonicalPath (snd e)) ags
               \<lparr>global = Some g, cwd = Some c\<rparr>"
  shows "untrackedStep env1 g c ags st e = untrackedStep env2 g c ags st e"
  using assms by (simp add: untrackedStep_def Let_def)

lemma lockLoop_cong:
  assumes j: "join env1 = join env2"
    and p: "\<forall>x \<in> set (installedMap st).
              parseSkillMd env1 (join env2 (canonicalPath (snd x)) ''SKILL.md'')
                = parseSkillMd env2 (join env2 (canonicalPath (snd x)) ''SKILL.md'')"
    and h: "\<forall>x \<in> set (installedMap st).
              g \<or> computeSkillFolderHash env1 (canonicalPath (snd x))
                    = computeSkillFolderHash env2 (canonicalPath (snd x))"
    and k: "\<forall>x \<in> set (installedMap st).
              checkSymlinkIntegrity env1 (fst x) (canonicalPath (snd x)) ags
                  \<lparr>global = Some g, cwd = Some c\<rparr>
                = checkSymlinkIntegrity env2 (fst x) (canonicalPath (snd x)) ags
                  \<lparr>global = Some g, cwd = Some c\<rparr>"
  shows "lockLoop env1 g c ags es st = lockLoop env2 g c ags es st"
  using p h k
proof (induction es arbitrary: st)
  case Nil
  show ?case by simp
next
  case (Cons e es)
  have step: "lockStep env1 g c ags st e = lockStep env2 g c ags st e"
    using j Cons.prems(1) Cons.prems(2) Cons.prems(3) by (rule lockStep_cong)
  have sub: "set (installedMap (lockStep env2 g c ags st e)) \<subseteq> set (installedMap st)"
    by (simp add: lockStep_installedMap Map_delete_filter)
  have "lockLoop env1 g c ags es (lockStep env2 g c ags st e)
          = lockLoop env2 g c ags es (lockStep env2 g c ags st e)"
  proof (rule Cons.IH)
    show "\<forall>x \<in> set (installedMap (lockStep env2 g c ags st e)).
              parseSkillMd env1 (join env2 (canonicalPath (snd x)) ''SKILL.md'')
                = parseSkillMd env2 (join env2 (canonicalPath (snd x)) ''SKILL.md'')"
      using Cons.prems(1) sub by (meson subsetD)
    show "\<forall>x \<in> set (installedMap (lockStep env2 g c ags st e)).
              g \<or> computeSkillFolderHash env1 (canonicalPath (snd x))
                    = computeSkillFolderHash env2 (canonicalPath (snd x))"
      using Cons.prems(2) sub by (meson subsetD)
    show "\<forall>x \<in> set (installedMap (lockStep env2 g c ags st e)).
              checkSymlinkIntegrity env1 (fst x) (canonicalPath (snd x)) ags
                  \<lparr>global = Some g, cwd = Some c\<rparr>
                = checkSymlinkIntegrity env2 (fst x) (canonicalPath (snd x)) ags
                  \<lparr>global = Some g, cwd = Some c\<rparr>"
      using Cons.prems(3) sub by (meson subsetD)
  qed
  then show ?case by (simp only: lockLoop.simps step)
qed

lemma untrackedLoop_cong:
  assumes "\<forall>x \<in> set m.
              checkSymlinkIntegrity env1 (fst x) (canonicalPath (snd x)) ags
                  \<lparr>global = Some g, cwd = Some c\<rparr>
                = checkSymlinkIntegrity env2 (fst x) (canonicalPath (snd x)) ags
                  \<lparr>global = Some g, cwd = Some c\<rparr>"
  shows "untrackedLoop env1 g c ags m st = untrackedLoop env2 g c ags m st"
  using assms
proof (induction m arbitrary: st)
  case Nil
  show ?case by simp
next
  case (Cons e m)
  have step: "untrackedStep env1 g c ags st e = untrackedStep env2 g c ags st e"
    using Cons.prems by (intro untrackedStep_cong) simp
  have "untrackedLoop env1 g c ags m (untrackedStep env2 g c ags st e)
          = untrackedLoop env2 g c ags m (untrackedStep env2 g c ags st e)"
    using Cons.prems by (intro Cons.IH) simp
  then show ?case by (simp only: untrackedLoop.simps step)
qed

lemma cwdOrProcess_idem:
  "cwdOrProcess env (Some (cwdOrProcess env x)) = cwdOrProcess env x"
  by (simp add: cwdOrProcess_def split: option.splits)

lemma globalOrFalse_Some: "globalOrFalse (Some g) = g"
  by (simp add: globalOrFalse_def)

lemma verifySkills_same_observations:
  assumes "sameObservations env1 env2 options"
  shows "verifySkills env1 options = verifySkills env2 options"
proof -
  let ?g = "globalOrFalse (global options)"
  let ?c = "cwdOrProcess env1 (cwd options)"
  let ?ags = "agentsToCheckOf env1 options"
  let ?m = "installedMapOf env1 options"
  note obs = assms [unfolded sameObservations_def]
  from obs have pc: "processCwd env1 = processCwd env2" by (elim conjE) assumption
  from obs have j: "join env1 = join env2" by (elim conjE) assumption
  from obs have dn: "dirname env1 = dirname env2" by (elim conjE) assumption
  from obs have rs: "resolve env1 = resolve env2" by (elim conjE) assumption
  from obs have lc: "localeCompare env1 = localeCompare env2" by (elim conjE) assumption
  from obs have bd: "getAgentBaseDir env1 = getAgentBaseDir env2" by (elim conjE) assumption
  from obs have cd: "getCanonicalSkillsDir env1 = getCanonicalSkillsDir env2"
    by (elim conjE) assumption
  from obs have lk: "lockedSkillsOf env1 options = lockedSkillsOf env2 options"
    by (elim conjE) assumption
  from obs have ins: "installedSkillsOf env1 options = installedSkillsOf env2 options"
    by (elim conjE) assumption
  from obs have da: "detectInstalledAgents env1 = detectInstalledAgents env2"
    by (elim conjE) assumption
  from obs have fs: "\<forall>s \<in> set (installedSkillsOf env1 options).
        parseSkillMd env1 (join env1 (canonicalPath s) ''SKILL.md'')
          = parseSkillMd env2 (join env1 (canonicalPath s) ''SKILL.md'') \<and>
        (?g \<or> computeSkillFolderHash env1 (canonicalPath s)
           = computeSkillFolderHash env2 (canonicalPath s)) \<and>
        (\<forall>a \<in> set ?ags.
           lstat env1 (join env1 (getAgentBaseDir env1 a ?g ?c) (InstalledSkill.name s))
             = lstat env2 (join env1 (getAgentBaseDir env1 a ?g ?c) (InstalledSkill.name s)) \<and>
           readlink env1 (join env1 (getAgentBaseDir env1 a ?g ?c) (InstalledSkill.name s))
             = readlink env2 (join env1 (getAgentBaseDir env1 a ?g ?c)
                                (InstalledSkill.name s)))"
    by (elim conjE) assumption
  have c: "cwdOrProcess env2 (cwd options) = ?c"
    by (rule cwdOrProcess_cong [OF pc, symmetric])
  have ags: "agentsToCheckOf env2 options = ?ags"
    by (simp add: agentsToCheckOf_def da)
  have m: "installedMapOf env2 options = ?m"
    by (simp add: installedMapOf_def ins)
  have entry: "\<exists>s \<in> set (installedSkillsOf env1 options). x = (InstalledSkill.name s, s)"
    if "x \<in> set ?m" for x
    using that set_buildInstalledMap [of "installedSkillsOf env1 options" "[]"]
    unfolding installedMapOf_def by auto
  have p: "\<forall>x \<in> set ?m.
              parseSkillMd env1 (join env2 (canonicalPath (snd x)) ''SKILL.md'')
                = parseSkillMd env2 (join env2 (canonicalPath (snd x)) ''SKILL.md'')"
  proof
    fix x assume "x \<in> set ?m"
    then obtain s where "s \<in> set (installedSkillsOf env1 options)"
      and "x = (InstalledSkill.name s, s)" using entry by blast
    then show "parseSkillMd env1 (join env2 (canonicalPath (snd x)) ''SKILL.md'')
                = parseSkillMd env2 (join env2 (canonicalPath (snd x)) ''SKILL.md'')"
      using fs by (simp add: j [symmetric])
  qed
  have h: "\<forall>x \<in> set ?m.
              ?g \<or> computeSkillFolderHash env1 (canonicalPath (snd x))
                    = computeSkillFolderHash env2 (canonicalPath (snd x))"
  proof
    fix x assume "x \<in> set ?m"
    then obtain s where "s \<in> set (installedSkillsOf env1 options)"
      and "x = (InstalledSkill.name s, s)" using entry by blast
    then show "?g \<or> computeSkillFolderHash env1 (canonicalPath (snd x))
                    = computeSkillFolderHash env2 (canonicalPath (snd x))"
      using fs by auto
  qed
  have k: "\<forall>x \<in> set ?m.
              checkSymlinkIntegrity env1 (fst x) (canonicalPath (snd x)) ?ags
                  \<lparr>global = Some ?g, cwd = Some ?c\<rparr>
                = checkSymlinkIntegrity env2 (fst x) (canonicalPath (snd x)) ?ags
                  \<lparr>global = Some ?g, cwd = Some ?c\<rparr>"
  proof
    fix x assume "x \<in> set ?m"
    then obtain s where s: "s \<in> set (installedSkillsOf env1 options)"
      and x: "x = (InstalledSkill.name s, s)" using entry by blast
    show "checkSymlinkIntegrity env1 (fst x) (canonicalPath (snd x)) ?ags
                  \<lparr>global = Some ?g, cwd = Some ?c\<rparr>
                = checkSymlinkIntegrity env2 (fst x) (canonicalPath (snd x)) ?ags
                  \<lparr>global = Some ?g, cwd = Some ?c\<rparr>"
      using pc j dn rs bd cd
    proof (rule checkSymlinkIntegrity_cong)
      show "\<forall>a\<in>set ?ags.
         lstat env1 (join env1 (getAgentBaseDir env1 a
               (globalOrFalse (global \<lparr>global = Some ?g, cwd = Some ?c\<rparr>))
               (cwdOrProcess env1 (cwd \<lparr>global = Some ?g, cwd = Some ?c\<rparr>))) (fst x))
         = lstat env2 (join env1 (getAgentBaseDir env1 a
               (globalOrFalse (global \<lparr>global = Some ?g, cwd = Some ?c\<rparr>))
               (cwdOrProcess env1 (cwd \<lparr>global = Some ?g, cwd = Some ?c\<rparr>))) (fst x)) \<and>
         readlink env1 (join env1 (getAgentBaseDir env1 a
               (globalOrFalse (global \<lparr>global = Some ?g, cwd = Some ?c\<rparr>))
               (cwdOrProcess env1 (cwd \<lparr>global = Some ?g, cwd = Some ?c\<rparr>))) (fst x))
         = readlink env2 (join env1 (getAgentBaseDir env1 a
               (globalOrFalse (global \<lparr>global = Some ?g, cwd = Some ?c\<rparr>))
               (cwdOrProcess env1 (cwd \<lparr>global = Some ?g, cwd = Some ?c\<rparr>))) (fst x))"
        using fs s by (simp add: x cwdOrProcess_idem globalOrFalse_Some)
    qed
  qed
  let ?st0 = "\<lparr>resultsV = [], countsV = zeroCounts, installedMap = ?m\<rparr>"
  have l1: "lockLoop env1 ?g ?c ?ags (lockedSkillsOf env1 options) ?st0
          = lockLoop env2 ?g ?c ?ags (lockedSkillsOf env1 options) ?st0"
    using j by (rule lockLoop_cong) (simp_all add: p h k)
  let ?st1 = "lockLoop env2 ?g ?c ?ags (lockedSkillsOf env1 options) ?st0"
  have "set (installedMap ?st1) \<subseteq> set ?m"
    by (simp add: lockLoop_installedMap)
  then have "\<forall>x \<in> set (installedMap ?st1).
              checkSymlinkIntegrity env1 (fst x) (canonicalPath (snd x)) ?ags
                  \<lparr>global = Some ?g, cwd = Some ?c\<rparr>
                = checkSymlinkIntegrity env2 (fst x) (canonicalPath (snd x)) ?ags
                  \<lparr>global = Some ?g, cwd = Some ?c\<rparr>"
    using k by (meson subsetD)
  then have l2: "untrackedLoop env1 ?g ?c ?ags (installedMap ?st1) ?st1
          = untrackedLoop env2 ?g ?c ?ags (installedMap ?st1) ?st1"
    by (rule untrackedLoop_cong)
  have "loopsState env1 options = loopsState env2 options"
    unfolding loopsState_def Let_def c ags m lk [symmetric] l1 l2 ..
  then show ?thesis
    by (simp only: verifySkills_unfold lc)
qed

subsection \<open>Results and the installed skills they stand for\<close>

lemma Map_get_delete_same: "Map_get (Map_delete k m) k = None"
  by (induction m) auto

lemma Map_get_distinct:
  "distinct (map fst m) \<Longrightarrow> (k, v) \<in> set m \<Longrightarrow> Map_get m k = Some v"
proof (induction m)
  case Nil
  then show ?case by simp
next
  case (Cons p m)
  obtain k' v' where p: "p = (k', v')" by (cases p)
  show ?case
  proof (cases "k' = k")
    case True
    have "k \<notin> fst ` set m" using Cons.prems(1) p True by simp
    then have "(k, v) \<notin> set m" by (metis fst_conv image_eqI)
    then have "v' = v" using Cons.prems(2) p True by simp
    then show ?thesis using p True by simp
  next
    case False
    then have "(k, v) \<in> set m" using Cons.prems(2) p by auto
    then show ?thesis using Cons.IH Cons.prems(1) False p by simp
  qed
qed

text \<open>
  The map of the first loop only loses entries, so what it holds for a name is what the
  map as first built holds.
\<close>

lemma lockStep_submap:
  assumes "\<forall>n inst. Map_get (installedMap st) n = Some inst \<longrightarrow> Map_get m0 n = Some inst"
  shows "\<forall>n inst. Map_get (installedMap (lockStep env g c ags st e)) n = Some inst
           \<longrightarrow> Map_get m0 n = Some inst"
proof (intro allI impI)
  fix n inst
  assume a: "Map_get (installedMap (lockStep env g c ags st e)) n = Some inst"
  then have b: "Map_get (Map_delete (fst e) (installedMap st)) n = Some inst"
    by (simp only: lockStep_installedMap)
  have "n \<noteq> fst e"
  proof
    assume "n = fst e"
    with b show False by (simp add: Map_get_delete_same)
  qed
  then have "Map_get (installedMap st) n = Some inst"
    using b by (simp add: Map_get_delete_other)
  with assms show "Map_get m0 n = Some inst" by blast
qed

lemma lockLoop_results_all_map:
  assumes "\<forall>r\<in>set (resultsV st). P r"
    and "\<forall>n inst. Map_get (installedMap st) n = Some inst \<longrightarrow> Map_get m0 n = Some inst"
    and "\<And>m e. (\<forall>n inst. Map_get m n = Some inst \<longrightarrow> Map_get m0 n = Some inst)
               \<Longrightarrow> P (lockedResult env g c ags m e)"
  shows "\<forall>r\<in>set (resultsV (lockLoop env g c ags es st)). P r"
  using assms(1,2)
proof (induction es arbitrary: st)
  case Nil
  then show ?case by simp
next
  case (Cons e es)
  have "P (lockedResult env g c ags (installedMap st) e)"
    using Cons.prems(2) by (rule assms(3))
  then have 1: "\<forall>r\<in>set (resultsV (lockStep env g c ags st e)). P r"
    using Cons.prems(1) by (simp add: lockStep_resultsV)
  have 2: "\<forall>n inst. Map_get (installedMap (lockStep env g c ags st e)) n = Some inst
             \<longrightarrow> Map_get m0 n = Some inst"
    using Cons.prems(2) by (rule lockStep_submap)
  from 1 2 have "\<forall>r\<in>set (resultsV (lockLoop env g c ags es (lockStep env g c ags st e))). P r"
    by (rule Cons.IH)
  then show ?case by simp
qed

lemma loopsState_results_all_map:
  assumes "\<And>m e. (\<forall>n inst. Map_get m n = Some inst
                        \<longrightarrow> Map_get (installedMapOf env options) n = Some inst)
               \<Longrightarrow> P (lockedResult env (globalOrFalse (global options))
                        (cwdOrProcess env (cwd options)) (agentsToCheckOf env options) m e)"
    and "\<And>e. Map_get (installedMapOf env options) (fst e) = Some (snd e)
             \<Longrightarrow> P (untrackedResult env (globalOrFalse (global options))
                      (cwdOrProcess env (cwd options)) (agentsToCheckOf env options) e)"
  shows "\<forall>r\<in>set (resultsV (loopsState env options)). P r"
proof -
  let ?g = "globalOrFalse (global options)" and ?c = "cwdOrProcess env (cwd options)"
  let ?ags = "agentsToCheckOf env options" and ?m0 = "installedMapOf env options"
  let ?st0 = "\<lparr>resultsV = [], countsV = zeroCounts, installedMap = ?m0\<rparr>"
  let ?st1 = "lockLoop env ?g ?c ?ags (lockedSkillsOf env options) ?st0"
  have 1: "\<forall>r\<in>set (resultsV ?st1). P r"
  proof (rule lockLoop_results_all_map [where ?m0.0 = ?m0])
    show "\<forall>r\<in>set (resultsV ?st0). P r" by simp
    show "\<forall>n inst. Map_get (installedMap ?st0) n = Some inst \<longrightarrow> Map_get ?m0 n = Some inst"
      by simp
  next
    fix m e
    assume "\<forall>n inst. Map_get m n = Some inst \<longrightarrow> Map_get ?m0 n = Some inst"
    then show "P (lockedResult env ?g ?c ?ags m e)" by (rule assms(1))
  qed
  have 2: "P (untrackedResult env ?g ?c ?ags e)" if "e \<in> set (installedMap ?st1)" for e
  proof (rule assms(2))
    from that have "e \<in> set ?m0" by (simp add: lockLoop_installedMap)
    then have "(fst e, snd e) \<in> set ?m0" by simp
    with distinct_keys_installedMapOf show "Map_get ?m0 (fst e) = Some (snd e)"
      by (rule Map_get_distinct)
  qed
  have "resultsV (loopsState env options)
          = resultsV ?st1 @ map (untrackedResult env ?g ?c ?ags) (installedMap ?st1)"
    by (simp add: loopsState_def Let_def untrackedLoop_resultsV)
  with 1 2 show ?thesis by auto
qed

text \<open>Every installed skill gets a result that carries its canonical path.\<close>

lemma lockLoop_results_mono:
  "set (resultsV st) \<subseteq> set (resultsV (lockLoop env g c ags es st))"
proof (induction es arbitrary: st)
  case Nil
  show ?case by simp
next
  case (Cons e es)
  have "set (resultsV st) \<subseteq> set (resultsV (lockStep env g c ags st e))"
    by (auto simp: lockStep_resultsV)
  also have "\<dots> \<subseteq> set (resultsV (lockLoop env g c ags es (lockStep env g c ags st e)))"
    by (rule Cons.IH)
  finally show ?case by simp
qed

lemma lockedResult_installed:
  assumes "Map_get m (fst e) = Some inst"
  shows "name (lockedResult env g c ags m e) = fst e
       \<and> path (lockedResult env g c ags m e) = canonicalPath inst
       \<and> status (lockedResult env g c ags m e) \<noteq> Missing"
  using assms by (simp add: lockedResult_checked split: sum.splits)

lemma lockLoop_result_for_installed:
  assumes "Map_get (installedMap st) n = Some inst" and "n \<in> fst ` set es"
  shows "\<exists>r\<in>set (resultsV (lockLoop env g c ags es st)).
           name r = n \<and> path r = canonicalPath inst \<and> status r \<noteq> Missing"
  using assms
proof (induction es arbitrary: st)
  case Nil
  then show ?case by simp
next
  case (Cons e es)
  show ?case
  proof (cases "fst e = n")
    case True
    let ?r = "lockedResult env g c ags (installedMap st) e"
    have "Map_get (installedMap st) (fst e) = Some inst" using Cons.prems(1) True by simp
    then have p: "name ?r = fst e \<and> path ?r = canonicalPath inst \<and> status ?r \<noteq> Missing"
      by (rule lockedResult_installed)
    have "?r \<in> set (resultsV (lockStep env g c ags st e))"
      by (simp add: lockStep_resultsV)
    then have "?r \<in> set (resultsV (lockLoop env g c ags es (lockStep env g c ags st e)))"
      using lockLoop_results_mono by blast
    then have "?r \<in> set (resultsV (lockLoop env g c ags (e # es) st))" by simp
    with p True show ?thesis by blast
  next
    case False
    then have "n \<in> fst ` set es" using Cons.prems(2) by auto
    moreover have "Map_get (installedMap (lockStep env g c ags st e)) n = Some inst"
      using Cons.prems(1) False by (simp add: lockStep_installedMap Map_get_delete_other)
    ultimately have "\<exists>r\<in>set (resultsV (lockLoop env g c ags es (lockStep env g c ags st e))).
           name r = n \<and> path r = canonicalPath inst \<and> status r \<noteq> Missing"
      by (intro Cons.IH)
    then show ?thesis by simp
  qed
qed

lemma loopsState_result_for_installed:
  assumes "Map_get (installedMapOf env options) n = Some inst"
  shows "\<exists>r\<in>set (resultsV (loopsState env options)).
           name r = n \<and> path r = canonicalPath inst \<and> status r \<noteq> Missing"
proof -
  let ?g = "globalOrFalse (global options)" and ?c = "cwdOrProcess env (cwd options)"
  let ?ags = "agentsToCheckOf env options" and ?m0 = "installedMapOf env options"
  let ?st0 = "\<lparr>resultsV = [], countsV = zeroCounts, installedMap = ?m0\<rparr>"
  let ?st1 = "lockLoop env ?g ?c ?ags (lockedSkillsOf env options) ?st0"
  have eq: "resultsV (loopsState env options)
          = resultsV ?st1 @ map (untrackedResult env ?g ?c ?ags) (installedMap ?st1)"
    by (simp add: loopsState_def Let_def untrackedLoop_resultsV)
  show ?thesis
  proof (cases "n \<in> fst ` set (lockedSkillsOf env options)")
    case True
    have "Map_get (installedMap ?st0) n = Some inst" using assms by simp
    from this True
    have "\<exists>r\<in>set (resultsV ?st1).
           name r = n \<and> path r = canonicalPath inst \<and> status r \<noteq> Missing"
      by (rule lockLoop_result_for_installed)
    then show ?thesis unfolding eq by auto
  next
    case False
    have "(n, inst) \<in> set ?m0" using assms by (rule Map_get_SomeD)
    with False have "(n, inst) \<in> set (installedMap ?st1)"
      by (simp add: lockLoop_installedMap)
    then have "untrackedResult env ?g ?c ?ags (n, inst)
                 \<in> set (map (untrackedResult env ?g ?c ?ags) (installedMap ?st1))"
      by (simp only: set_map) (rule imageI)
    moreover have "name (untrackedResult env ?g ?c ?ags (n, inst)) = n
       \<and> path (untrackedResult env ?g ?c ?ags (n, inst)) = canonicalPath inst
       \<and> status (untrackedResult env ?g ?c ?ags (n, inst)) \<noteq> Missing"
      by (simp add: untrackedResult_checked)
    ultimately show ?thesis unfolding eq by auto
  qed
qed

section \<open>The claims\<close>

text \<open>
  C1, as the code has it: a result with status ok, modified or untracked, or invalid
  although its \<open>SKILL.md\<close> parses (the fingerprint computation threw), belongs to the
  installed skill of its name, has that skill's canonical path as \<open>path\<close>, and holds in
  \<open>brokenSymlinks\<close> the findings of the checker for that name and canonical path; a
  result with status missing has none, the checker not being called for it; every
  installed skill has such a result that is not missing; and \<open>counts.brokenSymlinks\<close> is
  the number of findings of all results.
\<close>

theorem brokenSymlinks_are_checker_findings_for_canonical_path:
  "(\<forall>r \<in> set (results (verifySkills env options)).
      (status r = Missing \<longrightarrow> brokenSymlinks r = []) \<and>
      (status r \<noteq> Missing \<longrightarrow>
         (\<exists>inst. Map_get (installedMapOf env options) (name r) = Some inst \<and>
                 path r = canonicalPath inst \<and>
                 (status r = Ok \<or> status r = Modified \<or> status r = Untracked \<or>
                  (status r = Invalid \<and>
                   parseSkillMd env (join env (canonicalPath inst) ''SKILL.md'')) \<longrightarrow>
                  brokenSymlinks r =
                    checkSymlinkIntegrity env (name r) (canonicalPath inst)
                      (agentsToCheckOf env options)
                      \<lparr>global = Some (globalOrFalse (global options)),
                       cwd = Some (cwdOrProcess env (cwd options))\<rparr>))))
   \<and> (\<forall>n inst. Map_get (installedMapOf env options) n = Some inst \<longrightarrow>
         (\<exists>r \<in> set (results (verifySkills env options)).
            name r = n \<and> path r = canonicalPath inst \<and> status r \<noteq> Missing))
   \<and> brokenSymlinksCount (counts (verifySkills env options))
       = sum_list (map (\<lambda>r. length (brokenSymlinks r)) (results (verifySkills env options)))"
proof -
  let ?g = "globalOrFalse (global options)" and ?c = "cwdOrProcess env (cwd options)"
  let ?ags = "agentsToCheckOf env options" and ?m0 = "installedMapOf env options"
  let ?P = "\<lambda>r. (status r = Missing \<longrightarrow> brokenSymlinks r = []) \<and>
      (status r \<noteq> Missing \<longrightarrow>
         (\<exists>inst. Map_get ?m0 (name r) = Some inst \<and>
                 path r = canonicalPath inst \<and>
                 (status r = Ok \<or> status r = Modified \<or> status r = Untracked \<or>
                  (status r = Invalid \<and>
                   parseSkillMd env (join env (canonicalPath inst) ''SKILL.md'')) \<longrightarrow>
                  brokenSymlinks r =
                    checkSymlinkIntegrity env (name r) (canonicalPath inst) ?ags
                      \<lparr>global = Some ?g, cwd = Some ?c\<rparr>)))"
  have "\<forall>r\<in>set (resultsV (loopsState env options)). ?P r"
  proof (rule loopsState_results_all_map)
    fix m e
    assume sub: "\<forall>n inst. Map_get m n = Some inst \<longrightarrow> Map_get ?m0 n = Some inst"
    show "?P (lockedResult env ?g ?c ?ags m e)"
    proof (cases "Map_get m (fst e)")
      case None
      then show ?thesis by (simp add: lockedResult_checked)
    next
      case (Some inst)
      with sub have "Map_get ?m0 (fst e) = Some inst" by blast
      with Some show ?thesis
        by (simp add: lockedResult_checked split: sum.splits)
    qed
  next
    fix e
    assume "Map_get ?m0 (fst e) = Some (snd e)"
    then show "?P (untrackedResult env ?g ?c ?ags e)"
      by (simp add: untrackedResult_checked)
  qed
  then have all: "\<forall>r \<in> set (results (verifySkills env options)). ?P r"
    by (simp only: results_verifySkills set_Array_sort)
  have ex: "\<forall>n inst. Map_get ?m0 n = Some inst \<longrightarrow>
         (\<exists>r \<in> set (results (verifySkills env options)).
            name r = n \<and> path r = canonicalPath inst \<and> status r \<noteq> Missing)"
    using loopsState_result_for_installed [of env options]
    by (simp only: results_verifySkills set_Array_sort) blast
  have "counts (verifySkills env options) = tally (results (verifySkills env options))"
    by (simp only: counts_verifySkills results_verifySkills tally_Array_sort
          loopsState_countsV)
  then have cnt: "brokenSymlinksCount (counts (verifySkills env options))
       = sum_list (map (\<lambda>r. length (brokenSymlinks r)) (results (verifySkills env options)))"
    by (simp add: tally_def)
  from all ex cnt show ?thesis by (intro conjI)
qed

theorem brokenSymlinks_are_checker_findings_for_canonical_path_witness:
  "\<lparr>name = ''x'', path = ''/store/x'', status = Modified, expectedHash = Some ''h1'',
     actualHash = Some ''h2'', agents = [''A'', ''B''],
     brokenSymlinks = [\<lparr>agent = ''A'', link = ''/agentA/x''\<rparr>], error = None\<rparr>
     \<in> set (results (verifySkills scenarioEnv projectOptions))
   \<and> Map_get (installedMapOf scenarioEnv projectOptions) ''x'' = Some skillX
   \<and> canonicalPath skillX = ''/store/x''
   \<and> [\<lparr>agent = ''A'', link = ''/agentA/x''\<rparr>]
       = checkSymlinkIntegrity scenarioEnv ''x'' (canonicalPath skillX)
           (agentsToCheckOf scenarioEnv projectOptions)
           \<lparr>global = Some (globalOrFalse (global projectOptions)),
            cwd = Some (cwdOrProcess scenarioEnv (cwd projectOptions))\<rparr>"
proof -
  let ?r = "\<lparr>name = ''x'', path = ''/store/x'', status = Modified,
     expectedHash = Some ''h1'', actualHash = Some ''h2'', agents = [''A'', ''B''],
     brokenSymlinks = [\<lparr>agent = ''A'', link = ''/agentA/x''\<rparr>], error = None\<rparr>"
  have mem: "?r \<in> set (results (verifySkills scenarioEnv projectOptions))"
    by code_simp
  have m: "Map_get (installedMapOf scenarioEnv projectOptions) ''x'' = Some skillX"
    by code_simp
  have p: "canonicalPath skillX = ''/store/x''"
    by (simp add: skillX_def)
  have st: "status ?r \<noteq> Missing" by simp
  from brokenSymlinks_are_checker_findings_for_canonical_path
         [of scenarioEnv projectOptions] mem st
  obtain inst where
    i: "Map_get (installedMapOf scenarioEnv projectOptions) (name ?r) = Some inst"
    and c: "status ?r = Ok \<or> status ?r = Modified \<or> status ?r = Untracked \<or>
            (status ?r = Invalid \<and>
             parseSkillMd scenarioEnv (join scenarioEnv (canonicalPath inst) ''SKILL.md'')) \<longrightarrow>
            brokenSymlinks ?r =
              checkSymlinkIntegrity scenarioEnv (name ?r) (canonicalPath inst)
                (agentsToCheckOf scenarioEnv projectOptions)
                \<lparr>global = Some (globalOrFalse (global projectOptions)),
                 cwd = Some (cwdOrProcess scenarioEnv (cwd projectOptions))\<rparr>"
    by blast
  from i m have "inst = skillX" by simp
  with c have "[\<lparr>agent = ''A'', link = ''/agentA/x''\<rparr>]
       = checkSymlinkIntegrity scenarioEnv ''x'' (canonicalPath skillX)
           (agentsToCheckOf scenarioEnv projectOptions)
           \<lparr>global = Some (globalOrFalse (global projectOptions)),
            cwd = Some (cwdOrProcess scenarioEnv (cwd projectOptions))\<rparr>"
    by simp
  with mem m p show ?thesis by (intro conjI)
qed

text \<open>
  C1 as stated fails at both early exits of the first loop. \<open>gone\<close> is in the lock and
  not on disk: its result is missing, with path \<open>""\<close> and no findings, while the checker,
  asked about that name and path, reports the link agent \<open>A\<close> still has. \<open>x\<close> is invalid
  for its unparseable \<open>SKILL.md\<close>: its result has no findings, while the checker, asked,
  reports the link of agent \<open>A\<close>.
\<close>

theorem missing_and_unparseable_skills_are_not_link_checked:
  "results (verifySkills invalidMdEnv projectOptions) =
     [\<lparr>name = ''extra'', path = ''/store/extra'', status = Untracked, expectedHash = None,
       actualHash = None, agents = [], brokenSymlinks = [],
       error = Some ''Skill on disk but not in lock file''\<rparr>,
      \<lparr>name = ''gone'', path = [], status = Missing, expectedHash = None, actualHash = None,
       agents = [], brokenSymlinks = [],
       error = Some ''Skill in lock file but not found on disk''\<rparr>,
      \<lparr>name = ''x'', path = ''/store/x'', status = Invalid, expectedHash = None,
       actualHash = None, agents = [''A'', ''B''], brokenSymlinks = [],
       error = Some ''SKILL.md is missing or invalid''\<rparr>]
   \<and> checkSymlinkIntegrity invalidMdEnv ''gone'' []
         (agentsToCheckOf invalidMdEnv projectOptions)
         \<lparr>global = Some False, cwd = Some ''/proj''\<rparr>
       = [\<lparr>agent = ''A'', link = ''/agentA/gone''\<rparr>]
   \<and> checkSymlinkIntegrity invalidMdEnv ''x'' ''/store/x''
         (agentsToCheckOf invalidMdEnv projectOptions)
         \<lparr>global = Some False, cwd = Some ''/proj''\<rparr>
       = [\<lparr>agent = ''A'', link = ''/agentA/x''\<rparr>]
   \<and> brokenSymlinksCount (counts (verifySkills invalidMdEnv projectOptions)) = 0"
  by code_simp

text \<open>
  C2, as the code has it: in project scope, for a skill in the lock and on disk with a
  parseable \<open>SKILL.md\<close>, when the recorded \<open>computedHash\<close> is a non-empty string and the
  recomputed fingerprint is a different string, the one result of that name has status
  modified, \<open>expectedHash\<close> the recorded hash and \<open>actualHash\<close> the recomputed one.
\<close>

theorem modified_when_nonempty_recorded_hash_differs:
  assumes "\<not> globalOrFalse (global options)"
    and "distinct (map fst (lockedSkillsOf env options))"
    and "(n, e) \<in> set (lockedSkillsOf env options)"
    and "Map_get (installedMapOf env options) n = Some inst"
    and "parseSkillMd env (join env (canonicalPath inst) ''SKILL.md'')"
    and "computeSkillFolderHash env (canonicalPath inst) = Inr h"
    and "computedHash e = Some x" and "x \<noteq> []" and "h \<noteq> x"
  shows "filter (\<lambda>r. name r = n) (results (verifySkills env options)) =
     [\<lparr>name = n, path = canonicalPath inst, status = Modified, expectedHash = Some x,
       actualHash = Some h, agents = InstalledSkill.agents inst,
       brokenSymlinks = checkSymlinkIntegrity env n (canonicalPath inst)
                          (agentsToCheckOf env options)
                          \<lparr>global = Some False, cwd = Some (cwdOrProcess env (cwd options))\<rparr>,
       error = None\<rparr>]"
  unfolding result_of_lock_entry [OF assms(2,3)]
  using assms(1,4-9) by (simp add: lockedResult_checked truthy_def)

theorem modified_when_nonempty_recorded_hash_differs_witness:
  "\<not> globalOrFalse (global projectOptions)
   \<and> distinct (map fst (lockedSkillsOf scenarioEnv projectOptions))
   \<and> (''x'', lockX) \<in> set (lockedSkillsOf scenarioEnv projectOptions)
   \<and> Map_get (installedMapOf scenarioEnv projectOptions) ''x'' = Some skillX
   \<and> parseSkillMd scenarioEnv (join scenarioEnv (canonicalPath skillX) ''SKILL.md'')
   \<and> computeSkillFolderHash scenarioEnv (canonicalPath skillX) = Inr ''h2''
   \<and> computedHash lockX = Some ''h1''
   \<and> filter (\<lambda>r. name r = ''x'') (results (verifySkills scenarioEnv projectOptions)) =
     [\<lparr>name = ''x'', path = canonicalPath skillX, status = Modified, expectedHash = Some ''h1'',
       actualHash = Some ''h2'', agents = InstalledSkill.agents skillX,
       brokenSymlinks = checkSymlinkIntegrity scenarioEnv ''x'' (canonicalPath skillX)
                          (agentsToCheckOf scenarioEnv projectOptions)
                          \<lparr>global = Some False,
                           cwd = Some (cwdOrProcess scenarioEnv (cwd projectOptions))\<rparr>,
       error = None\<rparr>]"
proof -
  have h1: "\<not> globalOrFalse (global projectOptions)" by code_simp
  have h2: "distinct (map fst (lockedSkillsOf scenarioEnv projectOptions))" by code_simp
  have h3: "(''x'', lockX) \<in> set (lockedSkillsOf scenarioEnv projectOptions)" by code_simp
  have h4: "Map_get (installedMapOf scenarioEnv projectOptions) ''x'' = Some skillX"
    by code_simp
  have h5: "parseSkillMd scenarioEnv (join scenarioEnv (canonicalPath skillX) ''SKILL.md'')"
    by code_simp
  have h6: "computeSkillFolderHash scenarioEnv (canonicalPath skillX) = Inr ''h2''"
    by code_simp
  have h7: "computedHash lockX = Some ''h1''" by code_simp
  have h8: "''h1'' \<noteq> []" and h9: "''h2'' \<noteq> ''h1''" by simp_all
  from modified_when_nonempty_recorded_hash_differs [OF h1 h2 h3 h4 h5 h6 h7 h8 h9]
    h1 h2 h3 h4 h5 h6 h7
  show ?thesis by blast
qed

text \<open>
  C2 as stated fails when the recorded hash is the empty string: it differs from the
  recomputed \<open>h2\<close>, and the result is ok.
\<close>

theorem empty_recorded_hash_is_not_modified:
  "lockedSkillsOf emptyHashEnv projectOptions = [(''x'', lockX\<lparr>computedHash := Some []\<rparr>)]
   \<and> computeSkillFolderHash emptyHashEnv ''/store/x'' = Inr ''h2''
   \<and> results (verifySkills emptyHashEnv projectOptions) =
     [\<lparr>name = ''extra'', path = ''/store/extra'', status = Untracked, expectedHash = None,
       actualHash = None, agents = [], brokenSymlinks = [],
       error = Some ''Skill on disk but not in lock file''\<rparr>,
      \<lparr>name = ''x'', path = ''/store/x'', status = Ok, expectedHash = Some [],
       actualHash = Some ''h2'', agents = [''A'', ''B''],
       brokenSymlinks = [\<lparr>agent = ''A'', link = ''/agentA/x''\<rparr>], error = None\<rparr>]"
  by code_simp

text \<open>
  C3 on the code: when hashing the folder of \<open>x\<close> throws \<open>EACCES\<close>, the result of \<open>x\<close>
  is invalid and the other skills are classified as in the run without \<open>x\<close>, but the
  result has no \<open>error\<close> field: the message of the thrown error is dropped.
\<close>

theorem hash_failure_message_is_dropped:
  "computeSkillFolderHash hashThrowsEnv ''/store/x'' = Inl (Error ''EACCES'')
   \<and> results (verifySkills hashThrowsEnv projectOptions) =
     [\<lparr>name = ''extra'', path = ''/store/extra'', status = Untracked, expectedHash = None,
       actualHash = None, agents = [], brokenSymlinks = [],
       error = Some ''Skill on disk but not in lock file''\<rparr>,
      \<lparr>name = ''gone'', path = [], status = Missing, expectedHash = None, actualHash = None,
       agents = [], brokenSymlinks = [],
       error = Some ''Skill in lock file but not found on disk''\<rparr>,
      \<lparr>name = ''x'', path = ''/store/x'', status = Invalid, expectedHash = Some ''h1'',
       actualHash = None, agents = [''A'', ''B''],
       brokenSymlinks = [\<lparr>agent = ''A'', link = ''/agentA/x''\<rparr>], error = None\<rparr>]
   \<and> results (verifySkills withoutXEnv projectOptions) =
     [\<lparr>name = ''extra'', path = ''/store/extra'', status = Untracked, expectedHash = None,
       actualHash = None, agents = [], brokenSymlinks = [],
       error = Some ''Skill on disk but not in lock file''\<rparr>,
      \<lparr>name = ''gone'', path = [], status = Missing, expectedHash = None, actualHash = None,
       agents = [], brokenSymlinks = [],
       error = Some ''Skill in lock file but not found on disk''\<rparr>]"
  by code_simp

text \<open>
  C4: the five status counts of the summary add up to the number of results, each is the
  number of results with its status, and \<open>counts.brokenSymlinks\<close> is the sum of the
  lengths of the \<open>brokenSymlinks\<close> arrays of all results.
\<close>

theorem counts_equal_tally_of_results:
  "ok (counts (verifySkills env options)) + modified (counts (verifySkills env options))
     + missing (counts (verifySkills env options))
     + untracked (counts (verifySkills env options))
     + invalid (counts (verifySkills env options))
     = length (results (verifySkills env options))
   \<and> ok (counts (verifySkills env options))
       = length (filter (\<lambda>r. status r = Ok) (results (verifySkills env options)))
   \<and> modified (counts (verifySkills env options))
       = length (filter (\<lambda>r. status r = Modified) (results (verifySkills env options)))
   \<and> missing (counts (verifySkills env options))
       = length (filter (\<lambda>r. status r = Missing) (results (verifySkills env options)))
   \<and> untracked (counts (verifySkills env options))
       = length (filter (\<lambda>r. status r = Untracked) (results (verifySkills env options)))
   \<and> invalid (counts (verifySkills env options))
       = length (filter (\<lambda>r. status r = Invalid) (results (verifySkills env options)))
   \<and> brokenSymlinksCount (counts (verifySkills env options))
       = sum_list (map (\<lambda>r. length (brokenSymlinks r)) (results (verifySkills env options)))"
proof -
  have eq: "counts (verifySkills env options) = tally (results (verifySkills env options))"
    by (simp only: counts_verifySkills results_verifySkills tally_Array_sort
          loopsState_countsV)
  have total: "ok (counts (verifySkills env options))
     + modified (counts (verifySkills env options))
     + missing (counts (verifySkills env options))
     + untracked (counts (verifySkills env options))
     + invalid (counts (verifySkills env options))
     = length (results (verifySkills env options))"
    unfolding eq by (rule tally_total)
  have each: "ok (counts (verifySkills env options))
       = length (filter (\<lambda>r. status r = Ok) (results (verifySkills env options)))
   \<and> modified (counts (verifySkills env options))
       = length (filter (\<lambda>r. status r = Modified) (results (verifySkills env options)))
   \<and> missing (counts (verifySkills env options))
       = length (filter (\<lambda>r. status r = Missing) (results (verifySkills env options)))
   \<and> untracked (counts (verifySkills env options))
       = length (filter (\<lambda>r. status r = Untracked) (results (verifySkills env options)))
   \<and> invalid (counts (verifySkills env options))
       = length (filter (\<lambda>r. status r = Invalid) (results (verifySkills env options)))
   \<and> brokenSymlinksCount (counts (verifySkills env options))
       = sum_list (map (\<lambda>r. length (brokenSymlinks r)) (results (verifySkills env options)))"
    unfolding eq by (simp add: tally_def)
  from total each show ?thesis by (rule conjI)
qed

theorem counts_equal_tally_of_results_witness:
  "counts (verifySkills scenarioEnv projectOptions)
     = \<lparr>ok = 0, modified = 1, missing = 1, untracked = 1, invalid = 0,
        brokenSymlinksCount = 1\<rparr>
   \<and> length (results (verifySkills scenarioEnv projectOptions)) = 3
   \<and> length (filter (\<lambda>r. status r = Modified) (results (verifySkills scenarioEnv projectOptions)))
       = 1
   \<and> sum_list (map (\<lambda>r. length (brokenSymlinks r))
                 (results (verifySkills scenarioEnv projectOptions))) = 1"
proof -
  have c: "counts (verifySkills scenarioEnv projectOptions)
     = \<lparr>ok = 0, modified = 1, missing = 1, untracked = 1, invalid = 0,
        brokenSymlinksCount = 1\<rparr>"
    by code_simp
  note t = counts_equal_tally_of_results [of scenarioEnv projectOptions]
  have "length (results (verifySkills scenarioEnv projectOptions)) = 0 + 1 + 1 + 1 + 0"
    using t unfolding c by (simp only: Counts.simps)
  moreover have "length (filter (\<lambda>r. status r = Modified)
                   (results (verifySkills scenarioEnv projectOptions))) = 1"
    using t unfolding c by (simp only: Counts.simps)
  moreover have "sum_list (map (\<lambda>r. length (brokenSymlinks r))
                   (results (verifySkills scenarioEnv projectOptions))) = 1"
    using t unfolding c by (simp only: Counts.simps)
  ultimately show ?thesis using c by simp
qed

text \<open>
  C5: when the keys of the lock are pairwise different (they are the keys of an object)
  and \<open>localeCompare\<close> is a consistent comparison, the results carry each name of the lock
  or of the installed skills exactly once, and are sorted by name under \<open>localeCompare\<close>.
\<close>

theorem results_one_per_name_sorted_by_name:
  assumes "distinct (map fst (lockedSkillsOf env options))"
    and "consistentComparator (localeCompare env)"
  shows "distinct (map name (results (verifySkills env options)))
   \<and> set (map name (results (verifySkills env options)))
       = fst ` set (lockedSkillsOf env options)
         \<union> InstalledSkill.name ` set (installedSkillsOf env options)
   \<and> sorted_wrt (\<lambda>a b. localeCompare env (name a) (name b) \<le> 0)
        (results (verifySkills env options))"
proof -
  have d: "distinct (map name (results (verifySkills env options)))"
    using loopsState_distinct_names [OF assms(1)]
    by (simp only: results_verifySkills distinct_map_Array_sort)
  have "set (map name (resultsV (loopsState env options)))
          = fst ` set (lockedSkillsOf env options) \<union> fst ` set (installedMapOf env options)"
    by (auto simp: loopsState_names)
  then have "set (map name (resultsV (loopsState env options)))
          = fst ` set (lockedSkillsOf env options)
            \<union> InstalledSkill.name ` set (installedSkillsOf env options)"
    by (simp only: keys_installedMapOf)
  then have s: "set (map name (results (verifySkills env options)))
       = fst ` set (lockedSkillsOf env options)
         \<union> InstalledSkill.name ` set (installedSkillsOf env options)"
    by (simp add: results_verifySkills set_Array_sort)
  have "consistentComparator (\<lambda>a b. localeCompare env (name a) (name b))"
    using assms(2) unfolding consistentComparator_def by blast
  then have "sorted_wrt (\<lambda>a b. localeCompare env (name a) (name b) \<le> 0)
        (results (verifySkills env options))"
    unfolding results_verifySkills by (rule sorted_Array_sort)
  with d s show ?thesis by blast
qed

theorem results_one_per_name_sorted_by_name_witness:
  "distinct (map fst (lockedSkillsOf scenarioEnv projectOptions))
   \<and> consistentComparator (localeCompare scenarioEnv)
   \<and> map name (results (verifySkills scenarioEnv projectOptions)) = [''extra'', ''gone'', ''x'']
   \<and> distinct (map name (results (verifySkills scenarioEnv projectOptions)))
   \<and> set (map name (results (verifySkills scenarioEnv projectOptions)))
       = fst ` set (lockedSkillsOf scenarioEnv projectOptions)
         \<union> InstalledSkill.name ` set (installedSkillsOf scenarioEnv projectOptions)
   \<and> sorted_wrt (\<lambda>a b. localeCompare scenarioEnv (name a) (name b) \<le> 0)
        (results (verifySkills scenarioEnv projectOptions))"
proof -
  have h1: "distinct (map fst (lockedSkillsOf scenarioEnv projectOptions))"
    by code_simp
  have h2: "consistentComparator (localeCompare scenarioEnv)"
    using consistentComparator_compareStrings by (simp add: scenarioEnv_def)
  have n: "map name (results (verifySkills scenarioEnv projectOptions))
             = [''extra'', ''gone'', ''x'']"
    by code_simp
  from results_one_per_name_sorted_by_name [OF h1 h2] h1 h2 n show ?thesis by blast
qed

text \<open>
  C6: an agent whose base directory is the canonical store directory is skipped: the
  findings are those of the run without such agents, whatever \<open>lstat\<close> and \<open>readlink\<close>
  say about its link path, and no finding names such an agent.
\<close>

theorem checkSymlinkIntegrity_skips_canonical_agents:
  "checkSymlinkIntegrity env skillName canonPath agentsToCheck options =
     checkSymlinkIntegrity env skillName canonPath
       (filter (\<lambda>a. getAgentBaseDir env a (globalOrFalse (global options))
                       (cwdOrProcess env (cwd options))
                     \<noteq> getCanonicalSkillsDir env (globalOrFalse (global options))
                         (cwdOrProcess env (cwd options))) agentsToCheck) options
   \<and> (\<forall>b \<in> set (checkSymlinkIntegrity env skillName canonPath agentsToCheck options).
         getAgentBaseDir env (agent b) (globalOrFalse (global options))
           (cwdOrProcess env (cwd options))
         \<noteq> getCanonicalSkillsDir env (globalOrFalse (global options))
             (cwdOrProcess env (cwd options)))"
proof -
  let ?g = "globalOrFalse (global options)" and ?c = "cwdOrProcess env (cwd options)"
  have "filter (brokenLink env skillName canonPath ?g ?c)
          (filter (\<lambda>a. getAgentBaseDir env a ?g ?c \<noteq> getCanonicalSkillsDir env ?g ?c)
             agentsToCheck)
        = filter (brokenLink env skillName canonPath ?g ?c) agentsToCheck"
    by (induction agentsToCheck) (auto simp: brokenLink_iff)
  then have "checkSymlinkIntegrity env skillName canonPath agentsToCheck options =
     checkSymlinkIntegrity env skillName canonPath
       (filter (\<lambda>a. getAgentBaseDir env a ?g ?c \<noteq> getCanonicalSkillsDir env ?g ?c)
          agentsToCheck) options"
    by (simp add: checkSymlinkIntegrity_def checkAgents_eq)
  moreover have "getAgentBaseDir env (agent b) ?g ?c \<noteq> getCanonicalSkillsDir env ?g ?c"
    if "b \<in> set (checkSymlinkIntegrity env skillName canonPath agentsToCheck options)" for b
    using that by (auto simp: checkSymlinkIntegrity_def checkAgents_eq brokenLink_iff)
  ultimately show ?thesis by blast
qed

theorem checkSymlinkIntegrity_skips_canonical_agents_witness:
  "checkSymlinkIntegrity scenarioEnv ''x'' ''/other/x'' [''U'', ''A'', ''U'']
       \<lparr>global = Some False, cwd = Some ''/proj''\<rparr>
     = checkSymlinkIntegrity scenarioEnv ''x'' ''/other/x'' [''A'']
         \<lparr>global = Some False, cwd = Some ''/proj''\<rparr>
   \<and> checkSymlinkIntegrity scenarioEnv ''x'' ''/elsewhere/x'' [''U'', ''A'']
       \<lparr>global = Some False, cwd = Some ''/proj''\<rparr> = [\<lparr>agent = ''A'', link = ''/agentA/x''\<rparr>]
   \<and> getAgentBaseDir scenarioEnv ''A'' False ''/proj''
       \<noteq> getCanonicalSkillsDir scenarioEnv False ''/proj''"
  using checkSymlinkIntegrity_skips_canonical_agents
          [of scenarioEnv "''x''" "''/other/x''" "[''U'', ''A'', ''U'']"
              "\<lparr>global = Some False, cwd = Some ''/proj''\<rparr>"]
        checkSymlinkIntegrity_skips_canonical_agents
          [of scenarioEnv "''x''" "''/elsewhere/x''" "[''U'', ''A'']"
              "\<lparr>global = Some False, cwd = Some ''/proj''\<rparr>"]
  by (simp add: scenarioEnv_def globalOrFalse_def cwdOrProcess_def checkSymlinkIntegrity_def
        checkAgent_def posixJoin_def posixDirname_def posixResolve_def symlinkStats_def
        directoryStats_def)

text \<open>
  C7: \<open>checkSymlinkIntegrity\<close> reports \<open>{agent, link}\<close> for exactly the agents, in the
  order given, that are not skipped and whose link path \<open>baseDir/skillName\<close> exists, is a
  symbolic link, and has a target that, resolved from the link's own directory, is not
  \<open>canonicalPath\<close>. Every reported link exists and is a symbolic link, so an absent
  path and a plain directory are never reported.
\<close>

theorem checkSymlinkIntegrity_reports_broken_links:
  "checkSymlinkIntegrity env skillName canonPath agentsToCheck options =
     map (\<lambda>a. \<lparr>agent = a,
               link = join env (getAgentBaseDir env a (globalOrFalse (global options))
                                  (cwdOrProcess env (cwd options))) skillName\<rparr>)
       (filter (brokenLink env skillName canonPath (globalOrFalse (global options))
                  (cwdOrProcess env (cwd options))) agentsToCheck)
   \<and> (\<forall>b \<in> set (checkSymlinkIntegrity env skillName canonPath agentsToCheck options).
         \<exists>stats. lstat env (link b) = Inr stats \<and> isSymbolicLink stats)"
proof -
  have eq: "checkSymlinkIntegrity env skillName canonPath agentsToCheck options =
     map (\<lambda>a. \<lparr>agent = a,
               link = join env (getAgentBaseDir env a (globalOrFalse (global options))
                                  (cwdOrProcess env (cwd options))) skillName\<rparr>)
       (filter (brokenLink env skillName canonPath (globalOrFalse (global options))
                  (cwdOrProcess env (cwd options))) agentsToCheck)"
    by (simp add: checkSymlinkIntegrity_def checkAgents_eq)
  have "\<exists>stats. lstat env (link b) = Inr stats \<and> isSymbolicLink stats"
    if "b \<in> set (checkSymlinkIntegrity env skillName canonPath agentsToCheck options)" for b
    using that unfolding eq by (auto simp: brokenLink_iff)
  with eq show ?thesis by blast
qed

theorem checkSymlinkIntegrity_reports_broken_links_witness:
  "checkSymlinkIntegrity scenarioEnv ''x'' ''/store/x'' [''A'', ''B'', ''U'']
       \<lparr>global = Some False, cwd = Some ''/proj''\<rparr> = [\<lparr>agent = ''A'', link = ''/agentA/x''\<rparr>]
   \<and> checkSymlinkIntegrity scenarioEnv ''extra'' ''/store/extra'' [''A'', ''B'', ''U'']
       \<lparr>global = Some False, cwd = Some ''/proj''\<rparr> = []
   \<and> lstat scenarioEnv ''/agentA/x'' = Inr symlinkStats \<and> isSymbolicLink symlinkStats"
  using checkSymlinkIntegrity_reports_broken_links
          [of scenarioEnv "''x''" "''/store/x''" "[''A'', ''B'', ''U'']"
              "\<lparr>global = Some False, cwd = Some ''/proj''\<rparr>"]
        checkSymlinkIntegrity_reports_broken_links
          [of scenarioEnv "''extra''" "''/store/extra''" "[''A'', ''B'', ''U'']"
              "\<lparr>global = Some False, cwd = Some ''/proj''\<rparr>"]
  by (simp add: scenarioEnv_def brokenLink_def globalOrFalse_def cwdOrProcess_def
        posixJoin_def posixDirname_def posixResolve_def symlinkStats_def directoryStats_def)

text \<open>
  C8: in global scope, for a skill in the lock and on disk with a parseable \<open>SKILL.md\<close>,
  the one result of that name has status ok with \<open>expectedHash\<close> and \<open>actualHash\<close>
  unset, and the summary does not depend on \<open>computeSkillFolderHash\<close>: it is the same
  with any other fingerprint function \<open>f\<close> in its place.
\<close>

theorem global_scope_is_ok_without_hashing:
  assumes "globalOrFalse (global options)"
    and "distinct (map fst (lockedSkillsOf env options))"
    and "(n, e) \<in> set (lockedSkillsOf env options)"
    and "Map_get (installedMapOf env options) n = Some inst"
    and "parseSkillMd env (join env (canonicalPath inst) ''SKILL.md'')"
  shows "filter (\<lambda>r. name r = n) (results (verifySkills env options)) =
     [\<lparr>name = n, path = canonicalPath inst, status = Ok, expectedHash = None,
       actualHash = None, agents = InstalledSkill.agents inst,
       brokenSymlinks = checkSymlinkIntegrity env n (canonicalPath inst)
                          (agentsToCheckOf env options)
                          \<lparr>global = Some True, cwd = Some (cwdOrProcess env (cwd options))\<rparr>,
       error = None\<rparr>]
   \<and> verifySkills (env\<lparr>computeSkillFolderHash := f\<rparr>) options = verifySkills env options"
proof -
  have r: "filter (\<lambda>r. name r = n) (results (verifySkills env options)) =
     [\<lparr>name = n, path = canonicalPath inst, status = Ok, expectedHash = None,
       actualHash = None, agents = InstalledSkill.agents inst,
       brokenSymlinks = checkSymlinkIntegrity env n (canonicalPath inst)
                          (agentsToCheckOf env options)
                          \<lparr>global = Some True, cwd = Some (cwdOrProcess env (cwd options))\<rparr>,
       error = None\<rparr>]"
    unfolding result_of_lock_entry [OF assms(2,3)]
    using assms(1,4,5) by (simp add: lockedResult_checked)
  have c: "cwdOrProcess (env\<lparr>computeSkillFolderHash := f\<rparr>) (cwd options)
             = cwdOrProcess env (cwd options)"
    by (rule cwdOrProcess_cong) simp
  have "sameObservations (env\<lparr>computeSkillFolderHash := f\<rparr>) env options"
    using assms(1)
    by (simp add: sameObservations_def lockedSkillsOf_def installedSkillsOf_def
          agentsToCheckOf_def c)
  then have "verifySkills (env\<lparr>computeSkillFolderHash := f\<rparr>) options = verifySkills env options"
    by (rule verifySkills_same_observations)
  with r show ?thesis by (rule conjI)
qed

theorem global_scope_is_ok_without_hashing_witness:
  "globalOrFalse (global globalOptions)
   \<and> distinct (map fst (lockedSkillsOf scenarioEnv globalOptions))
   \<and> (''x'', lockX\<lparr>computedHash := None\<rparr>) \<in> set (lockedSkillsOf scenarioEnv globalOptions)
   \<and> Map_get (installedMapOf scenarioEnv globalOptions) ''x'' = Some skillX
   \<and> parseSkillMd scenarioEnv (join scenarioEnv (canonicalPath skillX) ''SKILL.md'')
   \<and> filter (\<lambda>r. name r = ''x'') (results (verifySkills scenarioEnv globalOptions)) =
     [\<lparr>name = ''x'', path = canonicalPath skillX, status = Ok, expectedHash = None,
       actualHash = None, agents = InstalledSkill.agents skillX,
       brokenSymlinks = checkSymlinkIntegrity scenarioEnv ''x'' (canonicalPath skillX)
                          (agentsToCheckOf scenarioEnv globalOptions)
                          \<lparr>global = Some True,
                           cwd = Some (cwdOrProcess scenarioEnv (cwd globalOptions))\<rparr>,
       error = None\<rparr>]
   \<and> verifySkills hashThrowsEnv globalOptions = verifySkills scenarioEnv globalOptions"
proof -
  have h1: "globalOrFalse (global globalOptions)" by code_simp
  have h2: "distinct (map fst (lockedSkillsOf scenarioEnv globalOptions))" by code_simp
  have h3: "(''x'', lockX\<lparr>computedHash := None\<rparr>)
              \<in> set (lockedSkillsOf scenarioEnv globalOptions)" by code_simp
  have h4: "Map_get (installedMapOf scenarioEnv globalOptions) ''x'' = Some skillX"
    by code_simp
  have h5: "parseSkillMd scenarioEnv (join scenarioEnv (canonicalPath skillX) ''SKILL.md'')"
    by code_simp
  from global_scope_is_ok_without_hashing
         [OF h1 h2 h3 h4 h5, of "\<lambda>p. Inl (Error ''EACCES'')"] h1 h2 h3 h4 h5
  show ?thesis unfolding hashThrowsEnv_def by blast
qed

text \<open>
  C9: two runs of \<open>verifySkills\<close> with the same options that observe the same (the same
  lock entries, installed skills and detected agents, and the same answers of the file
  system wherever a run asks) return equal summaries.
\<close>

theorem verifySkills_deterministic:
  "sameObservations env1 env2 options \<Longrightarrow> verifySkills env1 options = verifySkills env2 options"
  by (rule verifySkills_same_observations)

theorem verifySkills_deterministic_witness:
  "sameObservations scenarioEnv otherViewEnv projectOptions
   \<and> lstat scenarioEnv ''/elsewhere'' \<noteq> lstat otherViewEnv ''/elsewhere''
   \<and> verifySkills scenarioEnv projectOptions = verifySkills otherViewEnv projectOptions"
proof -
  have f1: "processCwd scenarioEnv = processCwd otherViewEnv"
    and f2: "join scenarioEnv = join otherViewEnv"
    and f3: "dirname scenarioEnv = dirname otherViewEnv"
    and f4: "resolve scenarioEnv = resolve otherViewEnv"
    and f5: "localeCompare scenarioEnv = localeCompare otherViewEnv"
    and f6: "getAgentBaseDir scenarioEnv = getAgentBaseDir otherViewEnv"
    and f7: "getCanonicalSkillsDir scenarioEnv = getCanonicalSkillsDir otherViewEnv"
    and f10: "detectInstalledAgents scenarioEnv = detectInstalledAgents otherViewEnv"
    by (simp_all add: otherViewEnv_def)
  have f8: "lockedSkillsOf scenarioEnv projectOptions
              = lockedSkillsOf otherViewEnv projectOptions"
    by code_simp
  have f9: "installedSkillsOf scenarioEnv projectOptions
              = installedSkillsOf otherViewEnv projectOptions"
    by code_simp
  have f11: "\<forall>s \<in> set (installedSkillsOf scenarioEnv projectOptions).
        parseSkillMd scenarioEnv (join scenarioEnv (canonicalPath s) ''SKILL.md'')
          = parseSkillMd otherViewEnv (join scenarioEnv (canonicalPath s) ''SKILL.md'') \<and>
        (globalOrFalse (global projectOptions) \<or>
         computeSkillFolderHash scenarioEnv (canonicalPath s)
           = computeSkillFolderHash otherViewEnv (canonicalPath s)) \<and>
        (\<forall>a \<in> set (agentsToCheckOf scenarioEnv projectOptions).
           lstat scenarioEnv
               (join scenarioEnv
                  (getAgentBaseDir scenarioEnv a (globalOrFalse (global projectOptions))
                     (cwdOrProcess scenarioEnv (cwd projectOptions)))
                  (InstalledSkill.name s))
             = lstat otherViewEnv
               (join scenarioEnv
                  (getAgentBaseDir scenarioEnv a (globalOrFalse (global projectOptions))
                     (cwdOrProcess scenarioEnv (cwd projectOptions)))
                  (InstalledSkill.name s)) \<and>
           readlink scenarioEnv
               (join scenarioEnv
                  (getAgentBaseDir scenarioEnv a (globalOrFalse (global projectOptions))
                     (cwdOrProcess scenarioEnv (cwd projectOptions)))
                  (InstalledSkill.name s))
             = readlink otherViewEnv
               (join scenarioEnv
                  (getAgentBaseDir scenarioEnv a (globalOrFalse (global projectOptions))
                     (cwdOrProcess scenarioEnv (cwd projectOptions)))
                  (InstalledSkill.name s)))"
    by code_simp
  have s: "sameObservations scenarioEnv otherViewEnv projectOptions"
    unfolding sameObservations_def
    using f1 f2 f3 f4 f5 f6 f7 f8 f9 f10 f11 by (intro conjI)
  have d: "lstat scenarioEnv ''/elsewhere'' \<noteq> lstat otherViewEnv ''/elsewhere''"
    by (simp add: otherViewEnv_def scenarioEnv_def)
  from verifySkills_deterministic [OF s] s d show ?thesis by blast
qed

text \<open>
  C10: in project scope, for a skill in the lock and on disk with a parseable
  \<open>SKILL.md\<close>, when the recorded \<open>computedHash\<close> is absent or the empty string and the
  fingerprint is computed, the one result of that name has status ok, whatever the
  fingerprint is.
\<close>

theorem ok_when_recorded_hash_absent_or_empty:
  assumes "\<not> globalOrFalse (global options)"
    and "distinct (map fst (lockedSkillsOf env options))"
    and "(n, e) \<in> set (lockedSkillsOf env options)"
    and "Map_get (installedMapOf env options) n = Some inst"
    and "parseSkillMd env (join env (canonicalPath inst) ''SKILL.md'')"
    and "computeSkillFolderHash env (canonicalPath inst) = Inr h"
    and "computedHash e = None \<or> computedHash e = Some []"
  shows "filter (\<lambda>r. name r = n) (results (verifySkills env options)) =
     [\<lparr>name = n, path = canonicalPath inst, status = Ok, expectedHash = computedHash e,
       actualHash = Some h, agents = InstalledSkill.agents inst,
       brokenSymlinks = checkSymlinkIntegrity env n (canonicalPath inst)
                          (agentsToCheckOf env options)
                          \<lparr>global = Some False, cwd = Some (cwdOrProcess env (cwd options))\<rparr>,
       error = None\<rparr>]"
  unfolding result_of_lock_entry [OF assms(2,3)]
  using assms(1,4-7) by (auto simp: lockedResult_checked truthy_def)

theorem ok_when_recorded_hash_absent_or_empty_witness:
  "\<not> globalOrFalse (global projectOptions)
   \<and> distinct (map fst (lockedSkillsOf emptyHashEnv projectOptions))
   \<and> (''x'', lockX\<lparr>computedHash := Some []\<rparr>) \<in> set (lockedSkillsOf emptyHashEnv projectOptions)
   \<and> Map_get (installedMapOf emptyHashEnv projectOptions) ''x'' = Some skillX
   \<and> parseSkillMd emptyHashEnv (join emptyHashEnv (canonicalPath skillX) ''SKILL.md'')
   \<and> computeSkillFolderHash emptyHashEnv (canonicalPath skillX) = Inr ''h2''
   \<and> computedHash (lockX\<lparr>computedHash := Some []\<rparr>) = Some []
   \<and> filter (\<lambda>r. name r = ''x'') (results (verifySkills emptyHashEnv projectOptions)) =
     [\<lparr>name = ''x'', path = canonicalPath skillX, status = Ok,
       expectedHash = computedHash (lockX\<lparr>computedHash := Some []\<rparr>),
       actualHash = Some ''h2'', agents = InstalledSkill.agents skillX,
       brokenSymlinks = checkSymlinkIntegrity emptyHashEnv ''x'' (canonicalPath skillX)
                          (agentsToCheckOf emptyHashEnv projectOptions)
                          \<lparr>global = Some False,
                           cwd = Some (cwdOrProcess emptyHashEnv (cwd projectOptions))\<rparr>,
       error = None\<rparr>]"
proof -
  have h1: "\<not> globalOrFalse (global projectOptions)" by code_simp
  have h2: "distinct (map fst (lockedSkillsOf emptyHashEnv projectOptions))" by code_simp
  have h3: "(''x'', lockX\<lparr>computedHash := Some []\<rparr>)
              \<in> set (lockedSkillsOf emptyHashEnv projectOptions)" by code_simp
  have h4: "Map_get (installedMapOf emptyHashEnv projectOptions) ''x'' = Some skillX"
    by code_simp
  have h5: "parseSkillMd emptyHashEnv (join emptyHashEnv (canonicalPath skillX) ''SKILL.md'')"
    by code_simp
  have h6: "computeSkillFolderHash emptyHashEnv (canonicalPath skillX) = Inr ''h2''"
    by code_simp
  have h7: "computedHash (lockX\<lparr>computedHash := Some []\<rparr>) = Some []" by simp
  then have h7': "computedHash (lockX\<lparr>computedHash := Some []\<rparr>) = None
                  \<or> computedHash (lockX\<lparr>computedHash := Some []\<rparr>) = Some []" by (rule disjI2)
  from ok_when_recorded_hash_absent_or_empty [OF h1 h2 h3 h4 h5 h6 h7']
    h1 h2 h3 h4 h5 h6 h7
  show ?thesis by blast
qed

end
